theory Spec2Isabelle
  imports Complex_Main
begin

section \<open>Strings as JavaScript sees them\<close>

text \<open>
  A JavaScript string is a sequence of UTF-16 code units, the integers from 0 to 65535.
  The functions below are defined on all lists of integers, and what is proved of them
  holds for the strings among these. String constants of the source are written with
  \<open>str\<close>, which gives the code units of an ASCII text.
\<close>

type_synonym codeUnit = int

type_synonym jsString = "codeUnit list"

definition str :: "string \<Rightarrow> jsString" where
  "str s = map of_char s"

text \<open>
  \<^verbatim>\<open>String.prototype.toLowerCase\<close>. The upper-case letters among the code units below 256
  are A to Z and U+00C0 to U+00DE without the multiplication sign U+00D7; each has its
  lower-case form 32 places further. Five characters outside this range have a lower-case
  form with a code unit below 256: U+0130 (capital I with dot) becomes \<^verbatim>\<open>i\<close> followed by
  the combining dot U+0307, U+0178 becomes U+00FF, U+1E9E becomes U+00DF, the Kelvin sign
  U+212A becomes \<^verbatim>\<open>k\<close> and the Angstrom sign U+212B becomes U+00E5. On all these and on
  every code unit without a lower-case form, the function below is the one of the
  language. The remaining cased letters (Greek, Cyrillic and so on) have lower-case forms
  that consist of code units above 255, none of them white space; they are kept
  unchanged here. The functions of the source that delete or blank the characters outside
  \<^verbatim>\<open>\w\<close> and \<^verbatim>\<open>\s\<close> after lower-casing, or that search the lower-cased text for an ASCII
  word, cannot tell the difference: \<open>normalizeForHashing\<close>, \<open>normalizeText\<close>, \<open>tokenize\<close>,
  \<open>generateArticleKey\<close> and \<open>calculatePriority\<close> compute what the source computes on every
  string. Entity names are compared as lower-cased; there, names that differ only in the
  case of such a letter count as different.
\<close>

definition isUpperCode :: "codeUnit \<Rightarrow> bool" where
  "isUpperCode n = ((65 \<le> n \<and> n \<le> 90) \<or> (192 \<le> n \<and> n \<le> 222 \<and> n \<noteq> 215))"

definition lowerUnit :: "codeUnit \<Rightarrow> jsString" where
  "lowerUnit c =
     (if isUpperCode c then [c + 32]
      else if c = 304 then [105, 775]
      else if c = 376 then [255]
      else if c = 7838 then [223]
      else if c = 8490 then [107]
      else if c = 8491 then [229]
      else [c])"

definition toLowerCase :: "jsString \<Rightarrow> jsString" where
  "toLowerCase s = concat (map lowerUnit s)"

text \<open>
  A regular expression with the flag \<^verbatim>\<open>i\<close> and without the flag \<^verbatim>\<open>u\<close> compares code units
  after upper-casing, and never lets a code unit above 127 match an ASCII letter: an ASCII
  letter of the pattern matches itself in either case and nothing else.
\<close>

definition foldAsciiCase :: "jsString \<Rightarrow> jsString" where
  "foldAsciiCase s = map (\<lambda>c. if 65 \<le> c \<and> c \<le> 90 then c + 32 else c) s"

definition isDigitChar :: "codeUnit \<Rightarrow> bool" where
  "isDigitChar c = (48 \<le> c \<and> c \<le> 57)"

text \<open>The class \<^verbatim>\<open>\w\<close>: ASCII letters, digits and the underscore.\<close>

definition isWordChar :: "codeUnit \<Rightarrow> bool" where
  "isWordChar c =
     ((48 \<le> c \<and> c \<le> 57) \<or> (65 \<le> c \<and> c \<le> 90) \<or> c = 95 \<or> (97 \<le> c \<and> c \<le> 122))"

text \<open>
  The class \<^verbatim>\<open>\s\<close>, which is also what \<^verbatim>\<open>trim\<close> removes: tab, line feed, vertical tab,
  form feed, carriage return, space, the no-break space U+00A0, U+1680, U+2000 to U+200A,
  the line and paragraph separators U+2028 and U+2029, U+202F, U+205F, U+3000 and the
  byte-order mark U+FEFF.
\<close>

definition isSpaceChar :: "codeUnit \<Rightarrow> bool" where
  "isSpaceChar c =
     ((9 \<le> c \<and> c \<le> 13) \<or> c = 32 \<or> c = 160 \<or> c = 5760 \<or> (8192 \<le> c \<and> c \<le> 8202)
      \<or> c = 8232 \<or> c = 8233 \<or> c = 8239 \<or> c = 8287 \<or> c = 12288 \<or> c = 65279)"

text \<open>\<^verbatim>\<open>.replace(/[^\w\s]/g, '')\<close>\<close>

definition stripNonWord :: "jsString \<Rightarrow> jsString" where
  "stripNonWord s = filter (\<lambda>c. isWordChar c \<or> isSpaceChar c) s"

text \<open>\<^verbatim>\<open>.replace(/\s+/g, ' ')\<close>: every maximal run of whitespace becomes one space (32).\<close>

function collapseWhitespace :: "jsString \<Rightarrow> jsString" where
  "collapseWhitespace [] = []"
| "collapseWhitespace (c # cs) =
     (if isSpaceChar c then 32 # collapseWhitespace (dropWhile isSpaceChar cs)
      else c # collapseWhitespace cs)"
  by pat_completeness auto
termination
  by (relation "measure length") (auto simp: less_Suc_eq_le length_dropWhile_le)

definition trim :: "jsString \<Rightarrow> jsString" where
  "trim s = rev (dropWhile isSpaceChar (rev (dropWhile isSpaceChar s)))"

text \<open>\<^verbatim>\<open>s.includes(k)\<close>\<close>

fun isPrefixOf :: "jsString \<Rightarrow> jsString \<Rightarrow> bool" where
  "isPrefixOf [] s = True"
| "isPrefixOf (k # ks) [] = False"
| "isPrefixOf (k # ks) (c # cs) = (k = c \<and> isPrefixOf ks cs)"

fun includesStr :: "jsString \<Rightarrow> jsString \<Rightarrow> bool" where
  "includesStr [] k = (k = [])"
| "includesStr (c # cs) k = (isPrefixOf k (c # cs) \<or> includesStr cs k)"

section \<open>Articles\<close>

text \<open>
  The fields that \<^verbatim>\<open>NewsProcessor.extractArticleData\<close> fills in. \<^verbatim>\<open>cleanText\<close> returns
  \<^verbatim>\<open>null\<close> for a missing or empty text, so title, content and summary are optional.
  \<open>publishedAt\<close> is in milliseconds since the epoch.
\<close>

record articleData =
  title :: "jsString option"
  url :: jsString
  source :: jsString
  category :: jsString
  tags :: "jsString list"
  content :: "jsString option"
  summary :: "jsString option"
  publishedAt :: int

record entity =
  name :: jsString
  etype :: jsString
  confidence :: real

text \<open>
  A stored article: \<open>oid\<close> is the \<^verbatim>\<open>_id\<close> the store assigns on insertion, the flags are
  those that \<^verbatim>\<open>processArticle\<close>, \<^verbatim>\<open>markAsUnique\<close> and \<^verbatim>\<open>markAsDuplicate\<close> write.
\<close>

record article = articleData +
  oid :: nat
  contentHash :: jsString
  entities :: "entity list"
  processed :: bool
  alertSent :: bool
  duplicateChecked :: bool
  isDuplicate :: bool
  originalArticleId :: "nat option"

text \<open>A template literal prints \<^verbatim>\<open>null\<close> as the four letters.\<close>

definition template :: "jsString option \<Rightarrow> jsString" where
  "template v = (case v of None \<Rightarrow> str ''null'' | Some s \<Rightarrow> s)"

text \<open>\<^verbatim>\<open>a || b\<close> on nullable strings: the empty string is falsy.\<close>

definition orElse :: "jsString option \<Rightarrow> jsString option \<Rightarrow> jsString option" where
  "orElse a b = (case a of None \<Rightarrow> b | Some s \<Rightarrow> (if s = [] then b else Some s))"

text \<open>\<^verbatim>\<open>article.content || article.summary || ''\<close>\<close>

definition contentOrSummary :: "'a articleData_scheme \<Rightarrow> jsString" where
  "contentOrSummary a = (case orElse (content a) (summary a) of None \<Rightarrow> [] | Some s \<Rightarrow> s)"

section \<open>NewsProcessor: content fingerprint\<close>

definition normalizeForHashing :: "jsString \<Rightarrow> jsString" where
  "normalizeForHashing text = trim (collapseWhitespace (stripNonWord (toLowerCase text)))"

text \<open>
  \<^verbatim>\<open>generateContentHash\<close> normalises the text
  \<^verbatim>\<open>`${article.title} ${article.content || article.summary}`\<close> and digests it. The digest
  (\<^verbatim>\<open>crypto.createHash(algo).update(x).digest('hex')\<close>) is a library function and a
  parameter here.
\<close>

definition hashText :: "'a articleData_scheme \<Rightarrow> jsString" where
  "hashText a = template (title a) @ str '' '' @ template (orElse (content a) (summary a))"

definition generateContentHash :: "(jsString \<Rightarrow> jsString) \<Rightarrow> 'a articleData_scheme \<Rightarrow> jsString" where
  "generateContentHash digest a = digest (normalizeForHashing (hashText a))"

text \<open>
  Two texts differ only in punctuation, letter case or whitespace when they agree once
  every character outside \<^verbatim>\<open>\w\<close> is deleted and the case is folded.
\<close>

definition differOnlyInFormat :: "jsString \<Rightarrow> jsString \<Rightarrow> bool" where
  "differOnlyInFormat x y = (filter isWordChar (toLowerCase x) = filter isWordChar (toLowerCase y))"

text \<open>
  The punctuation that the normalisation deletes: the characters that are neither word
  characters nor white space and whose lower-case form has no word character. The last
  condition excludes U+0130, the capital I with a dot (304), and the Kelvin sign U+212A
  (8490), which are lower-cased to \<^verbatim>\<open>i\<close> and \<^verbatim>\<open>k\<close> before the deletion.
\<close>

definition isPunctuation :: "codeUnit \<Rightarrow> bool" where
  "isPunctuation c = (\<not> isWordChar c \<and> \<not> isSpaceChar c \<and> c \<noteq> 304 \<and> c \<noteq> 8490)"

definition stripPunctuation :: "jsString \<Rightarrow> jsString" where
  "stripPunctuation s = filter (\<lambda>c. \<not> isPunctuation c) s"

text \<open>
  A text is collapsed when each of its whitespace characters is a space that no
  whitespace follows: the shape \<open>collapseWhitespace\<close> produces.
\<close>

fun collapsed :: "jsString \<Rightarrow> bool" where
  "collapsed [] = True"
| "collapsed [c] = (isSpaceChar c \<longrightarrow> c = 32)"
| "collapsed (c # d # cs) =
     ((isSpaceChar c \<longrightarrow> c = 32 \<and> \<not> isSpaceChar d) \<and> collapsed (d # cs))"

section \<open>AlertManager: priority\<close>

datatype priority = Low | Medium | High

datatype jsError = TypeError | DuplicateKeyError

definition breakingKeywords :: "jsString list" where
  "breakingKeywords = [str ''breaking'', str ''urgent'', str ''alert'', str ''developing'']"

definition highImpactKeywords :: "jsString list" where
  "highImpactKeywords = [str ''merger'', str ''acquisition'', str ''ipo'', str ''bankruptcy'', str ''ceo'', str ''funding'']"

text \<open>
  The test \<^verbatim>\<open>/(billion|\$[0-9]{1,}[0-9,]*million)/i\<close>. At one position: either
  \<^verbatim>\<open>billion\<close> starts here, or a dollar sign, a digit, any digits and commas, and then
  \<^verbatim>\<open>million\<close>. No digit or comma starts \<^verbatim>\<open>million\<close>, so the longest run of digits and
  commas is the only one after which the word can match. The dollar sign is the code unit
  36 and the comma 44.
\<close>

definition moneyMatchAt :: "jsString \<Rightarrow> bool" where
  "moneyMatchAt s =
     (isPrefixOf (str ''billion'') (foldAsciiCase s) \<or>
      (case s of
         [] \<Rightarrow> False
       | c # rest \<Rightarrow>
           c = 36 \<and> rest \<noteq> [] \<and> isDigitChar (hd rest) \<and>
           isPrefixOf (str ''million'')
             (foldAsciiCase (dropWhile (\<lambda>d. isDigitChar d \<or> d = 44) rest))))"

fun moneyTest :: "jsString \<Rightarrow> bool" where
  "moneyTest [] = False"
| "moneyTest (c # cs) = (moneyMatchAt (c # cs) \<or> moneyTest cs)"

text \<open>
  \<^verbatim>\<open>calculatePriority\<close>. \<^verbatim>\<open>article.title.toLowerCase()\<close> throws a TypeError on a
  \<^verbatim>\<open>null\<close> title.
\<close>

definition calculatePriority :: "'a articleData_scheme \<Rightarrow> jsError + priority" where
  "calculatePriority a =
     (case title a of
        None \<Rightarrow> Inl TypeError
      | Some t \<Rightarrow>
          (let titleLower = toLowerCase t;
               p0 = Medium;
               p1 = (if list_ex (\<lambda>keyword. includesStr titleLower keyword) breakingKeywords
                     then High else p0);
               p2 = (if list_ex (\<lambda>keyword. includesStr titleLower keyword) highImpactKeywords
                     then High else p1);
               p3 = (if moneyTest (contentOrSummary a) then High else p2)
           in Inr (if category a = str ''breaking'' then High
                   else if category a = str ''business'' then Medium
                   else if category a = str ''entertainment'' then Low
                   else p3)))"

section \<open>DeduplicationEngine: configuration\<close>

text \<open>
  JavaScript numbers are modelled as real numbers: the arithmetic below is the source's,
  without the rounding of IEEE doubles.
\<close>

datatype detectionMethod =
  ContentHash | TitleSimilarity | SemanticSimilarity | EntitySimilarity | ContentSimilarity
  | ErrorMethod

text \<open>\<^verbatim>\<open>config.deduplication\<close>, as \<^verbatim>\<open>ConfigManager.loadAndValidateConfig\<close> builds it.\<close>

record config =
  similarityThreshold :: real
  timeWindowHours :: real
  titleWeight :: real
  contentWeight :: real
  entityWeight :: real

definition defaultConfig :: config where
  "defaultConfig = \<lparr>similarityThreshold = 0.85, timeWindowHours = 24,
     titleWeight = 0.4, contentWeight = 0.4, entityWeight = 0.2\<rparr>"

text \<open>\<^verbatim>\<open>this.thresholds\<close> of the \<^verbatim>\<open>DeduplicationEngine\<close> constructor.\<close>

record thresholds =
  thContentHash :: real
  thTitleSimilarity :: real
  thContentSimilarity :: real
  thEntitySimilarity :: real
  thSemanticSimilarity :: real
  thLlmValidation :: real

definition thresholdsOf :: "config \<Rightarrow> thresholds" where
  "thresholdsOf cfg = \<lparr>thContentHash = 1.0, thTitleSimilarity = 0.9,
     thContentSimilarity = similarityThreshold cfg, thEntitySimilarity = 0.8,
     thSemanticSimilarity = similarityThreshold cfg, thLlmValidation = 0.85\<rparr>"

text \<open>
  What the engine takes from libraries and services: \<^verbatim>\<open>compareTwoStrings\<close> of the package
  string-similarity, \<^verbatim>\<open>removeStopwords\<close> of the package stopword, and the embedding that
  \<^verbatim>\<open>getOrGenerateEmbedding\<close> finds in the store or gets from the provider (\<^verbatim>\<open>null\<close> when
  there is none).
\<close>

record providers =
  compareTwoStrings :: "jsString \<Rightarrow> jsString \<Rightarrow> real"
  removeStopwords :: "jsString list \<Rightarrow> jsString list"
  embedding :: "article \<Rightarrow> real list option"

section \<open>DeduplicationEngine: text helpers\<close>

text \<open>\<^verbatim>\<open>.replace(/[^\w\s]/g, ' ')\<close>; the space is the code unit 32.\<close>

definition blankNonWord :: "jsString \<Rightarrow> jsString" where
  "blankNonWord s = map (\<lambda>c. if isWordChar c \<or> isSpaceChar c then c else 32) s"

definition normalizeText :: "jsString \<Rightarrow> jsString" where
  "normalizeText text = trim (collapseWhitespace (blankNonWord (toLowerCase text)))"

text \<open>\<^verbatim>\<open>s.split(' ')\<close>: the pieces between single spaces, empty pieces included.\<close>

function splitSpace :: "jsString \<Rightarrow> jsString list" where
  "splitSpace s =
     (case dropWhile (\<lambda>c. c \<noteq> 32) s of
        [] \<Rightarrow> [s]
      | _ # r \<Rightarrow> takeWhile (\<lambda>c. c \<noteq> 32) s # splitSpace r)"
  by pat_completeness auto
termination
proof (relation "measure length")
  show "wf (measure length)" by simp
next
  fix s :: jsString and x r
  assume "dropWhile (\<lambda>c. c \<noteq> 32) s = x # r"
  then have "length (x # r) \<le> length s"
    by (metis length_dropWhile_le)
  then show "(r, s) \<in> measure length" by simp
qed

text \<open>\<^verbatim>\<open>s.split(/\s+/)\<close>: the pieces between maximal runs of whitespace.\<close>

function splitWhitespace :: "jsString \<Rightarrow> jsString list" where
  "splitWhitespace s =
     (case dropWhile (\<lambda>c. \<not> isSpaceChar c) s of
        [] \<Rightarrow> [s]
      | _ # r \<Rightarrow> takeWhile (\<lambda>c. \<not> isSpaceChar c) s # splitWhitespace (dropWhile isSpaceChar r))"
  by pat_completeness auto
termination
proof (relation "measure length")
  show "wf (measure length)" by simp
next
  fix s :: jsString and x r
  assume "dropWhile (\<lambda>c. \<not> isSpaceChar c) s = x # r"
  then have "length (x # r) \<le> length s"
    by (metis length_dropWhile_le)
  moreover have "length (dropWhile isSpaceChar r) \<le> length r"
    by (rule length_dropWhile_le)
  ultimately show "(dropWhile isSpaceChar r, s) \<in> measure length" by simp
qed

text \<open>\<^verbatim>\<open>words.join(' ')\<close>\<close>

fun joinSpace :: "jsString list \<Rightarrow> jsString" where
  "joinSpace [] = []"
| "joinSpace [w] = w"
| "joinSpace (w # v # ws) = w @ 32 # joinSpace (v # ws)"

text \<open>A \<^verbatim>\<open>Set\<close> keeps its members in the order of their first insertion.\<close>

definition setAdd :: "'a list \<Rightarrow> 'a \<Rightarrow> 'a list" where
  "setAdd acc x = (if x \<in> set acc then acc else acc @ [x])"

definition newSet :: "'a list \<Rightarrow> 'a list" where
  "newSet xs = foldl setAdd [] xs"

text \<open>\<^verbatim>\<open>jaccardSimilarity\<close> on the words of two texts.\<close>

definition jaccardSimilarity :: "jsString \<Rightarrow> jsString \<Rightarrow> real" where
  "jaccardSimilarity text1 text2 =
     (let set1 = newSet (splitSpace text1);
          set2 = newSet (splitSpace text2);
          intersection = filter (\<lambda>x. x \<in> set set2) set1;
          union = newSet (set1 @ set2)
      in real (length intersection) / real (length union))"

section \<open>DeduplicationEngine: the similarity signals\<close>

text \<open>\<^verbatim>\<open>calculateTextSimilarity\<close>: a missing or empty text gives 0.\<close>

definition calculateTextSimilarity :: "providers \<Rightarrow> jsString option \<Rightarrow> jsString option \<Rightarrow> real" where
  "calculateTextSimilarity env text1 text2 =
     (case (text1, text2) of
        (Some t1, Some t2) \<Rightarrow>
          (if t1 = [] \<or> t2 = [] then 0
           else let norm1 = normalizeText t1; norm2 = normalizeText t2
                in if length norm1 = 0 \<or> length norm2 = 0 then 0
                   else let jaccardSim = jaccardSimilarity norm1 norm2;
                            cosineSim = compareTwoStrings env norm1 norm2
                        in jaccardSim * 0.4 + cosineSim * 0.6)
      | _ \<Rightarrow> 0)"

text \<open>\<^verbatim>\<open>cosineSimilarity\<close>: the loop accumulates the dot product and the two squared norms.\<close>

fun cosineLoop :: "real list \<Rightarrow> real list \<Rightarrow> real \<times> real \<times> real \<Rightarrow> real \<times> real \<times> real" where
  "cosineLoop (a # as) (b # bs) (dotProduct, normA, normB) =
     cosineLoop as bs (dotProduct + a * b, normA + a * a, normB + b * b)"
| "cosineLoop _ _ acc = acc"

definition cosineSimilarity :: "real list \<Rightarrow> real list \<Rightarrow> real" where
  "cosineSimilarity vectorA vectorB =
     (if length vectorA \<noteq> length vectorB then 0
      else case cosineLoop vectorA vectorB (0, 0, 0) of
        (dotProduct, normA, normB) \<Rightarrow>
          (let magnitude = sqrt normA * sqrt normB
           in if magnitude = 0 then 0 else dotProduct / magnitude))"

text \<open>\<^verbatim>\<open>SimpleTfIdf\<close>, with its documents; vocabulary and document frequencies are
  computed from them as \<^verbatim>\<open>addDocument\<close> maintains them.\<close>

definition tokenize :: "jsString \<Rightarrow> jsString list" where
  "tokenize text =
     take 1000 (filter (\<lambda>word. length word > 2 \<and> length word < 20)
       (splitWhitespace (blankNonWord (toLowerCase text))))"

definition tf :: "jsString \<Rightarrow> jsString list \<Rightarrow> real" where
  "tf term document =
     (if length document = 0 then 0
      else real (length (filter (\<lambda>word. word = term) document)) / real (length document))"

definition documentFrequency :: "jsString list list \<Rightarrow> jsString \<Rightarrow> nat" where
  "documentFrequency documents term = length (filter (\<lambda>doc. term \<in> set doc) documents)"

definition idf :: "jsString list list \<Rightarrow> jsString \<Rightarrow> real" where
  "idf documents term =
     (let docsWithTerm = documentFrequency documents term
      in if docsWithTerm = 0 then 0 else ln (real (length documents) / real docsWithTerm))"

definition tfidf :: "jsString list list \<Rightarrow> jsString \<Rightarrow> nat \<Rightarrow> real" where
  "tfidf documents term docIndex =
     (if docIndex \<ge> length documents then 0
      else tf term (documents ! docIndex) * idf documents term)"

definition vocabulary :: "jsString list list \<Rightarrow> jsString list" where
  "vocabulary documents = newSet (concat documents)"

definition getVector :: "jsString list list \<Rightarrow> nat \<Rightarrow> real list" where
  "getVector documents docIndex =
     (if docIndex \<ge> length documents then []
      else map (\<lambda>term. tfidf documents term docIndex) (take 500 (vocabulary documents)))"

definition tfidfSimilarity :: "jsString list list \<Rightarrow> nat \<Rightarrow> nat \<Rightarrow> real" where
  "tfidfSimilarity documents docIndex1 docIndex2 =
     (let vector1 = getVector documents docIndex1;
          vector2 = getVector documents docIndex2
      in if length vector1 = 0 \<or> length vector2 = 0 then 0
         else cosineSimilarity vector1 vector2)"

definition preprocessContent :: "providers \<Rightarrow> jsString \<Rightarrow> jsString" where
  "preprocessContent env c =
     (if c = [] then []
      else joinSpace (removeStopwords env
             (take 500 (filter (\<lambda>word. length word > 2 \<and> length word < 15)
                (splitSpace (normalizeText c))))))"

definition calculateContentSimilarity :: "providers \<Rightarrow> article \<Rightarrow> article \<Rightarrow> real" where
  "calculateContentSimilarity env article1 article2 =
     (let content1 = preprocessContent env (contentOrSummary article1);
          content2 = preprocessContent env (contentOrSummary article2)
      in if content1 = [] \<or> content2 = [] \<or> length content1 < 10 \<or> length content2 < 10 then 0
         else tfidfSimilarity [tokenize content1, tokenize content2] 0 1)"

definition calculateEntitySimilarity :: "entity list \<Rightarrow> entity list \<Rightarrow> real" where
  "calculateEntitySimilarity entities1 entities2 =
     (if length entities1 = 0 \<or> length entities2 = 0 then 0
      else let names1 = newSet (map (\<lambda>e. toLowerCase (name e)) entities1);
               names2 = newSet (map (\<lambda>e. toLowerCase (name e)) entities2);
               intersection = filter (\<lambda>x. x \<in> set names2) names1;
               union = newSet (names1 @ names2)
           in real (length intersection) / real (length union))"

definition calculateSemanticSimilarity :: "providers \<Rightarrow> article \<Rightarrow> article \<Rightarrow> real" where
  "calculateSemanticSimilarity env article1 article2 =
     (case (embedding env article1, embedding env article2) of
        (Some embedding1, Some embedding2) \<Rightarrow> cosineSimilarity embedding1 embedding2
      | _ \<Rightarrow> 0)"

definition calculateTemporalProximity :: "int \<Rightarrow> int \<Rightarrow> real" where
  "calculateTemporalProximity date1 date2 =
     (let timeDiff = real_of_int \<bar>date1 - date2\<bar>;
          hoursDiff = timeDiff / (1000 * 60 * 60)
      in max 0 (1 - hoursDiff / 24))"

definition calculateSourceAlignment :: "article \<Rightarrow> article \<Rightarrow> real" where
  "calculateSourceAlignment article1 article2 =
     (let s0 = 0;
          s1 = (if source article1 = source article2 then s0 + 0.4 else s0);
          s2 = (if category article1 = category article2 then s1 + 0.3 else s1);
          tags1 = newSet (tags article1);
          tags2 = newSet (tags article2);
          tagOverlap = length (filter (\<lambda>tag. tag \<in> set tags2) tags1);
          maxTags = max (length tags1) (length tags2);
          s3 = (if maxTags > 0 then s2 + (real tagOverlap / real maxTags) * 0.3 else s2)
      in min s3 1.0)"

section \<open>DeduplicationEngine: scoring and thresholds\<close>

text \<open>
  The object \<^verbatim>\<open>scores\<close>. When the content hashes match, only \<^verbatim>\<open>contentHash\<close>,
  \<^verbatim>\<open>overallScore\<close> and the field \<^verbatim>\<open>method\<close> (here \<open>scoreMethod\<close>) are set; the other
  signals are absent.
\<close>

record scores =
  contentHashScore :: real
  titleSimilarity :: "real option"
  contentSimilarity :: "real option"
  entitySimilarity :: "real option"
  semanticSimilarity :: "real option"
  temporalProximity :: "real option"
  sourceAlignment :: "real option"
  overallScore :: real
  scoreMethod :: detectionMethod

text \<open>An entry of \<^verbatim>\<open>similarities\<close>: \<^verbatim>\<open>{candidate, ...similarity}\<close>.\<close>

record similarity = scores +
  candidate :: article

text \<open>An entry of \<^verbatim>\<open>duplicates\<close>: \<^verbatim>\<open>{article, similarity, confidence}\<close>.\<close>

record duplicate =
  dupArticle :: article
  dupSimilarity :: similarity
  dupConfidence :: real

definition determinePrimaryMethod :: "real \<Rightarrow> real \<Rightarrow> real \<Rightarrow> real \<Rightarrow> detectionMethod" where
  "determinePrimaryMethod hashScore titleSim semanticSim entitySim =
     (if hashScore = 1.0 then ContentHash
      else if titleSim > 0.9 then TitleSimilarity
      else if semanticSim > 0.85 then SemanticSimilarity
      else if entitySim > 0.8 then EntitySimilarity
      else ContentSimilarity)"

text \<open>
  \<^verbatim>\<open>calculateSimilarityScore\<close>. Each signal of the source catches its own exceptions and
  returns 0 then; with the data modelled here none of them throws, so the outer
  \<^verbatim>\<open>catch\<close>, which would return the method \<^verbatim>\<open>error\<close> and a score of 0, is not reached.
\<close>

definition calculateSimilarityScore :: "providers \<Rightarrow> config \<Rightarrow> article \<Rightarrow> article \<Rightarrow> scores" where
  "calculateSimilarityScore env weights article1 article2 =
     (let hashScore = (if contentHash article1 = contentHash article2 then 1.0 else 0.0)
      in if hashScore = 1.0 then
           \<lparr>contentHashScore = hashScore, titleSimilarity = None, contentSimilarity = None,
            entitySimilarity = None, semanticSimilarity = None, temporalProximity = None,
            sourceAlignment = None, overallScore = 1.0, scoreMethod = ContentHash\<rparr>
         else
           let titleSim = calculateTextSimilarity env (title article1) (title article2);
               contentSim = calculateContentSimilarity env article1 article2;
               entitySim = calculateEntitySimilarity (entities article1) (entities article2);
               semanticSim = calculateSemanticSimilarity env article1 article2;
               temporalProx = calculateTemporalProximity (publishedAt article1) (publishedAt article2);
               sourceAlign = calculateSourceAlignment article1 article2;
               overall = titleSim * titleWeight weights + contentSim * contentWeight weights
                         + entitySim * entityWeight weights + semanticSim * 0.3
                         + temporalProx * 0.1 + sourceAlign * 0.1
           in \<lparr>contentHashScore = hashScore, titleSimilarity = Some titleSim,
               contentSimilarity = Some contentSim, entitySimilarity = Some entitySim,
               semanticSimilarity = Some semanticSim, temporalProximity = Some temporalProx,
               sourceAlignment = Some sourceAlign, overallScore = overall,
               scoreMethod = determinePrimaryMethod hashScore titleSim semanticSim entitySim\<rparr>)"

text \<open>
  \<^verbatim>\<open>analyzeSimilarities\<close> keeps the candidates that score above 0.3 and sorts them by
  descending score (\<^verbatim>\<open>Array.prototype.sort\<close> is stable).
\<close>

definition analyzeSimilarities :: "providers \<Rightarrow> config \<Rightarrow> article \<Rightarrow> article list \<Rightarrow> similarity list" where
  "analyzeSimilarities env weights a candidates =
     sort_key (\<lambda>s. - overallScore s)
       (filter (\<lambda>s. overallScore s > 0.3)
          (map (\<lambda>c. scores.extend (calculateSimilarityScore env weights a c)
                       \<lparr>candidate = c\<rparr>) candidates))"

text \<open>The \<^verbatim>\<open>switch\<close> of \<^verbatim>\<open>identifyDuplicates\<close>: three cases and a default.\<close>

definition thresholdFor :: "thresholds \<Rightarrow> detectionMethod \<Rightarrow> real" where
  "thresholdFor th m =
     (case m of
        ContentHash \<Rightarrow> thContentHash th
      | TitleSimilarity \<Rightarrow> thTitleSimilarity th
      | SemanticSimilarity \<Rightarrow> thSemanticSimilarity th
      | _ \<Rightarrow> thContentSimilarity th)"

fun identifyDuplicates :: "thresholds \<Rightarrow> similarity list \<Rightarrow> duplicate list" where
  "identifyDuplicates th [] = []"
| "identifyDuplicates th (s # similarities) =
     (let threshold = thresholdFor th (scoreMethod s)
      in if overallScore s \<ge> threshold
         then \<lparr>dupArticle = candidate s, dupSimilarity = s, dupConfidence = overallScore s\<rparr>
              # identifyDuplicates th similarities
         else identifyDuplicates th similarities)"

section \<open>Auxiliary notions for the statements\<close>

text \<open>The sums that the loop of \<open>cosineSimilarity\<close> accumulates.\<close>

definition dot :: "real list \<Rightarrow> real list \<Rightarrow> real" where
  "dot as bs = sum_list (map2 (*) as bs)"

definition sumSquares :: "real list \<Rightarrow> real" where
  "sumSquares as = sum_list (map (\<lambda>a. a * a) as)"

text \<open>
  The share of common tags that \<open>calculateSourceAlignment\<close> computes: the number of
  common tags over the size of the larger tag set.
\<close>

definition tagOverlapRatio :: "jsString list \<Rightarrow> jsString list \<Rightarrow> real" where
  "tagOverlapRatio tags1 tags2 =
     (if tags1 = [] \<and> tags2 = [] then 0
      else real (card (set tags1 \<inter> set tags2)) / real (max (card (set tags1)) (card (set tags2))))"

text \<open>
  The source alignment in the words of the specification: 0.4 for the same source, 0.3 for
  the same category, and 0.3 times the Jaccard similarity of the tag sets (intersection
  over union).
\<close>

definition tagJaccard :: "jsString list \<Rightarrow> jsString list \<Rightarrow> real" where
  "tagJaccard tags1 tags2 =
     (if set tags1 \<union> set tags2 = {} then 0
      else real (card (set tags1 \<inter> set tags2)) / real (card (set tags1 \<union> set tags2)))"

definition specSourceAlignment :: "article \<Rightarrow> article \<Rightarrow> real" where
  "specSourceAlignment article1 article2 =
     0.4 * of_bool (source article1 = source article2)
     + 0.3 * of_bool (category article1 = category article2)
     + 0.3 * tagJaccard (tags article1) (tags article2)"


section \<open>Example data\<close>

definition artA :: article where
  "artA = \<lparr>title = Some (str ''Acme to acquire Beta''), url = str ''http://a.example/1'',
     source = str ''Reuters'', category = str ''business'', tags = [str ''deals'', str ''tech''],
     content = Some (str ''Acme said on Monday it will acquire Beta.''), summary = None,
     publishedAt = 0, oid = 1, contentHash = str ''h1'',
     entities = [\<lparr>name = str ''Acme'', etype = str ''ORG'', confidence = 0.9\<rparr>,
                 \<lparr>name = str ''Beta'', etype = str ''ORG'', confidence = 0.9\<rparr>],
     processed = False, alertSent = False, duplicateChecked = False, isDuplicate = False,
     originalArticleId = None\<rparr>"

definition artB :: article where
  "artB = \<lparr>title = Some (str ''Beta acquired by Acme''), url = str ''http://b.example/7'',
     source = str ''Bloomberg'', category = str ''markets'', tags = [str ''deals'', str ''finance''],
     content = Some (str ''Beta is being acquired by Acme.''), summary = None,
     publishedAt = 1800000, oid = 2, contentHash = str ''h2'',
     entities = [\<lparr>name = str ''ACME'', etype = str ''ORG'', confidence = 0.8\<rparr>],
     processed = False, alertSent = False, duplicateChecked = False, isDuplicate = False,
     originalArticleId = None\<rparr>"

text \<open>Stand-ins for the libraries and the embedding service.\<close>

definition envX :: providers where
  "envX = \<lparr>compareTwoStrings = (\<lambda>a b. if a = b then 1 else 0.5),
            removeStopwords = filter (\<lambda>w. w \<notin> set [str ''the'', str ''is'', str ''it'', str ''on'', str ''by'']),
            embedding = (\<lambda>a. if oid a = 1 then Some [3, 4] else Some [4, 3])\<rparr>"

text \<open>The scored candidate \<open>artB\<close> of the new article \<open>artA\<close>.\<close>

definition simAB :: "config \<Rightarrow> similarity" where
  "simAB cfg = scores.extend (calculateSimilarityScore envX cfg artA artB) \<lparr>candidate = artB\<rparr>"


section \<open>The store\<close>

text \<open>
  A document of the collection \<^verbatim>\<open>duplicates\<close>. The ingestion path writes a link with no
  duplicate id and the URL of the dropped item; the engine writes the id of the candidate
  and the breakdown of the scores. The titles, sources and timestamps that the documents
  also carry are left out.
\<close>

record duplicateLink =
  linkOriginalArticleId :: nat
  linkDuplicateArticleId :: "nat option"
  linkDuplicateUrl :: "jsString option"
  linkSimilarityScore :: real
  linkDetectionMethod :: detectionMethod
  linkSimilarityBreakdown :: "similarity option"
  linkTimeDifference :: "int option"

text \<open>
  The collections \<^verbatim>\<open>articles\<close> and \<^verbatim>\<open>duplicates\<close> in insertion order, and the next
  \<^verbatim>\<open>_id\<close> that the store hands out.
\<close>

record store =
  articles :: "article list"
  duplicates :: "duplicateLink list"
  nextOid :: nat


text \<open>\<^verbatim>\<open>findArticle({url})\<close> and \<^verbatim>\<open>findArticle({contentHash})\<close>: the first match.\<close>

definition findArticleByUrl :: "store \<Rightarrow> jsString \<Rightarrow> article option" where
  "findArticleByUrl db u = find (\<lambda>a. url a = u) (articles db)"

definition findArticleByHash :: "store \<Rightarrow> jsString \<Rightarrow> article option" where
  "findArticleByHash db h = find (\<lambda>a. contentHash a = h) (articles db)"

text \<open>
  \<^verbatim>\<open>insertArticle\<close>: \<^verbatim>\<open>createIndexes\<close> declares a unique index on \<^verbatim>\<open>url\<close>, so the insertion
  of a second article with the same URL throws.
\<close>

definition insertArticle :: "store \<Rightarrow> article \<Rightarrow> jsError + (store \<times> nat)" where
  "insertArticle db a =
     (if list_ex (\<lambda>b. url b = url a) (articles db) then Inl DuplicateKeyError
      else Inr (db\<lparr>articles := articles db @ [a\<lparr>oid := nextOid db\<rparr>],
                    nextOid := Suc (nextOid db)\<rparr>, nextOid db))"

text \<open>
  \<^verbatim>\<open>insertDuplicate\<close>: \<^verbatim>\<open>createIndexes\<close> declares a unique index on the pair
  \<^verbatim>\<open>(originalArticleId, duplicateArticleId)\<close>, in which \<^verbatim>\<open>null\<close> is a value like any other.
\<close>

definition linkKey :: "duplicateLink \<Rightarrow> nat \<times> nat option" where
  "linkKey l = (linkOriginalArticleId l, linkDuplicateArticleId l)"

definition insertDuplicate :: "store \<Rightarrow> duplicateLink \<Rightarrow> jsError + store" where
  "insertDuplicate db l =
     (if list_ex (\<lambda>k. linkKey k = linkKey l) (duplicates db) then Inl DuplicateKeyError
      else Inr (db\<lparr>duplicates := duplicates db @ [l]\<rparr>))"

text \<open>\<^verbatim>\<open>updateArticle({_id}, update)\<close>: \<^verbatim>\<open>updateOne\<close> changes the first match.\<close>

fun updateOne :: "('a \<Rightarrow> bool) \<Rightarrow> ('a \<Rightarrow> 'a) \<Rightarrow> 'a list \<Rightarrow> 'a list" where
  "updateOne p f [] = []"
| "updateOne p f (x # xs) = (if p x then f x # xs else x # updateOne p f xs)"

definition updateArticle :: "store \<Rightarrow> nat \<Rightarrow> (article \<Rightarrow> article) \<Rightarrow> store" where
  "updateArticle db i f = db\<lparr>articles := updateOne (\<lambda>a. oid a = i) f (articles db)\<rparr>"

section \<open>NewsProcessor: ingestion of one item\<close>

text \<open>\<^verbatim>\<open>s.lastIndexOf(c)\<close>; \<^verbatim>\<open>generateSummary\<close> looks for the full stop, the code unit 46.\<close>

definition lastIndexOf :: "jsString \<Rightarrow> codeUnit \<Rightarrow> int" where
  "lastIndexOf s c =
     (if c \<in> set s then int (length s) - 1 - int (length (takeWhile (\<lambda>x. x \<noteq> c) (rev s)))
      else - 1)"

definition generateSummary :: "jsString \<Rightarrow> jsString" where
  "generateSummary c =
     (if length c \<le> 300 then c
      else let truncated = take 300 c;
               lastSentence = lastIndexOf truncated 46
           in if real_of_int lastSentence > 300 * 0.7
              then take (nat (lastSentence + 1)) truncated
              else truncated @ str ''...'')"

text \<open>
  \<^verbatim>\<open>processArticle(item, feed)\<close>, after \<^verbatim>\<open>extractArticleData\<close>. The result is the stored
  article, or \<^verbatim>\<open>null\<close> when the item is dropped, or the exception that the store raised.
  The digest and the entity extractor are parameters; the optional fetch of the full page
  does not touch the fields modelled here.
\<close>

definition processArticle ::
  "(jsString \<Rightarrow> jsString) \<Rightarrow> (jsString \<Rightarrow> entity list) \<Rightarrow> store \<Rightarrow> articleData
     \<Rightarrow> store \<times> (jsError + article option)" where
  "processArticle digest extractEntities db raw =
     (case findArticleByUrl db (url raw) of
        Some existingArticle \<Rightarrow> (db, Inr None)
      | None \<Rightarrow>
          (let h = generateContentHash digest raw
           in case findArticleByHash db h of
                Some duplicateByHash \<Rightarrow>
                  (case insertDuplicate db
                          \<lparr>linkOriginalArticleId = oid duplicateByHash,
                           linkDuplicateArticleId = None,
                           linkDuplicateUrl = Some (url raw),
                           linkSimilarityScore = 1.0,
                           linkDetectionMethod = ContentHash,
                           linkSimilarityBreakdown = None,
                           linkTimeDifference = None\<rparr> of
                     Inl e \<Rightarrow> (db, Inl e)
                   | Inr db' \<Rightarrow> (db', Inr None))
              | None \<Rightarrow>
                  (let ents = extractEntities (hashText raw);
                       summ = (case (orElse (summary raw) None, orElse (content raw) None) of
                                 (None, Some c) \<Rightarrow> Some (generateSummary c)
                               | _ \<Rightarrow> summary raw);
                       a = articleData.extend (raw\<lparr>summary := summ\<rparr>)
                             (article.fields 0 h ents False False False False None)
                   in case insertArticle db a of
                        Inl e \<Rightarrow> (db, Inl e)
                      | Inr (db', i) \<Rightarrow> (db', Inr (Some (a\<lparr>oid := i\<rparr>))))))"

section \<open>DeduplicationEngine: candidates, election of the original, marking\<close>

text \<open>
  \<^verbatim>\<open>getCandidateArticles\<close>: the stored articles other than the new one, published within
  the time window before \<open>now\<close>, that share the source, the category or a tag with it; the
  50 most recently published.
\<close>

definition getCandidateArticles :: "config \<Rightarrow> int \<Rightarrow> store \<Rightarrow> article \<Rightarrow> article list" where
  "getCandidateArticles cfg now db a =
     take 50 (sort_key (\<lambda>c. - publishedAt c)
       (filter (\<lambda>c. oid c \<noteq> oid a
                    \<and> real_of_int (publishedAt c)
                        \<ge> real_of_int now - timeWindowHours cfg * 60 * 60 * 1000
                    \<and> (source c = source a \<or> category c = category a
                        \<or> list_ex (\<lambda>t. t \<in> set (tags a)) (tags c)))
          (articles db)))"

definition markAsUnique :: "store \<Rightarrow> article \<Rightarrow> store" where
  "markAsUnique db a =
     updateArticle db (oid a)
       (\<lambda>x. x\<lparr>processed := True, duplicateChecked := True, isDuplicate := False\<rparr>)"

definition markAsDuplicate :: "store \<Rightarrow> article \<Rightarrow> nat \<Rightarrow> store" where
  "markAsDuplicate db a originalId =
     updateArticle db (oid a)
       (\<lambda>x. x\<lparr>processed := True, duplicateChecked := True, isDuplicate := True,
               originalArticleId := Some originalId\<rparr>)"

text \<open>
  The \<^verbatim>\<open>reduce\<close> of \<^verbatim>\<open>processDuplicates\<close> over the new article followed by the articles
  of \<^verbatim>\<open>duplicates\<close>: a later member replaces the earliest so far only when its publication
  time is strictly smaller.
\<close>

definition electOriginal :: "article \<Rightarrow> duplicate list \<Rightarrow> article" where
  "electOriginal a dups =
     foldl (\<lambda>earliest current.
              if publishedAt current < publishedAt earliest then current else earliest)
       a (map dupArticle dups)"

definition linkFor :: "article \<Rightarrow> duplicate \<Rightarrow> duplicateLink" where
  "linkFor originalArticle d =
     \<lparr>linkOriginalArticleId = oid originalArticle,
      linkDuplicateArticleId = Some (oid (dupArticle d)),
      linkDuplicateUrl = None,
      linkSimilarityScore = dupConfidence d,
      linkDetectionMethod = scoreMethod (dupSimilarity d),
      linkSimilarityBreakdown = Some (dupSimilarity d),
      linkTimeDifference =
        Some \<bar>publishedAt originalArticle - publishedAt (dupArticle d)\<bar>\<rparr>"

text \<open>The loop that records the links; an exception of the store ends it.\<close>

fun recordDuplicates :: "store \<Rightarrow> article \<Rightarrow> duplicate list \<Rightarrow> store \<times> jsError option" where
  "recordDuplicates db originalArticle [] = (db, None)"
| "recordDuplicates db originalArticle (d # ds) =
     (case insertDuplicate db (linkFor originalArticle d) of
        Inl e \<Rightarrow> (db, Some e)
      | Inr db' \<Rightarrow> recordDuplicates db' originalArticle ds)"

text \<open>
  \<^verbatim>\<open>processDuplicates\<close>: the result lists the articles for which
  \<^verbatim>\<open>uniqueArticleDetected\<close> is emitted.
\<close>

definition processDuplicates ::
  "store \<Rightarrow> article \<Rightarrow> duplicate list \<Rightarrow> store \<times> (jsError + article list)" where
  "processDuplicates db a dups =
     (let originalArticle = electOriginal a dups
      in case recordDuplicates db originalArticle dups of
           (db', Some e) \<Rightarrow> (db', Inl e)
         | (db', None) \<Rightarrow>
             (if oid a = oid originalArticle then (markAsUnique db' a, Inr [a])
              else (markAsDuplicate db' a (oid originalArticle), Inr [])))"

text \<open>
  \<^verbatim>\<open>performDeduplication\<close>, without the in-memory clustering that follows the decision.
\<close>

definition performDeduplication ::
  "providers \<Rightarrow> config \<Rightarrow> int \<Rightarrow> store \<Rightarrow> article \<Rightarrow> store \<times> (jsError + article list)" where
  "performDeduplication env cfg now db a =
     (let candidates = getCandidateArticles cfg now db a
      in if length candidates = 0 then (markAsUnique db a, Inr [])
         else let similarities = analyzeSimilarities env cfg a candidates;
                  dups = identifyDuplicates (thresholdsOf cfg) similarities
              in if length dups > 0 then processDuplicates db a dups
                 else (markAsUnique db a, Inr []))"

text \<open>
  The identical repost: source A posts a story, source B posts the same text under another
  URL fifteen minutes later. \<open>storedA\<close> is the first as the store holds it, with the identity
  as digest, and \<open>hashLinkAB\<close> the link that the second leaves.
\<close>

definition rawA :: articleData where
  "rawA = \<lparr>title = Some (str ''Acme acquires Beta for $2B''), url = str ''http://a.example/acme-beta'',
     source = str ''Source A'', category = str ''business'', tags = [str ''deals''],
     content = Some (str ''Acme said on Monday it will acquire Beta.''), summary = None,
     publishedAt = 0\<rparr>"

definition rawB :: articleData where
  "rawB = \<lparr>title = Some (str ''Acme acquires Beta for $2B''), url = str ''http://b.example/story-17'',
     source = str ''Source B'', category = str ''business'', tags = [str ''deals''],
     content = Some (str ''Acme said on Monday it will acquire Beta.''), summary = None,
     publishedAt = 900000\<rparr>"

definition storedA :: article where
  "storedA = articleData.extend (rawA\<lparr>summary := Some (str ''Acme said on Monday it will acquire Beta.'')\<rparr>)
     (article.fields 1 (str ''acme acquires beta for 2b acme said on monday it will acquire beta'')
        [] False False False False None)"

definition hashLinkAB :: duplicateLink where
  "hashLinkAB = \<lparr>linkOriginalArticleId = 1, linkDuplicateArticleId = None,
     linkDuplicateUrl = Some (str ''http://b.example/story-17''), linkSimilarityScore = 1,
     linkDetectionMethod = ContentHash, linkSimilarityBreakdown = None,
     linkTimeDifference = None\<rparr>"


text \<open>An item of source A with a given title and content, for the examples of the content hash.\<close>

definition hashedA :: "jsString \<Rightarrow> jsString \<Rightarrow> articleData" where
  "hashedA t c = \<lparr>title = Some t, url = str ''http://a.example/1'', source = str ''Source A'',
     category = str ''business'', tags = [], content = Some c, summary = None, publishedAt = 0\<rparr>"

section \<open>Notions and data for the store properties\<close>

text \<open>
  \<open>pick\<close> is the step of the reduction in \<open>electOriginal\<close>; \<open>linksUnique\<close> says that the pairs
  of original and duplicate id of the stored links are pairwise different. The other
  definitions are two runs of the engine: a new article \<open>tieN\<close> with the title, entities and
  publication time of the stored \<open>artA\<close>, and \<open>lateN\<close>, the same article published fifteen
  minutes later.
\<close>

definition pick :: "article \<Rightarrow> article \<Rightarrow> article" where
  "pick earliest current = (if publishedAt current < publishedAt earliest then current else earliest)"

definition linksUnique :: "store \<Rightarrow> bool" where
  "linksUnique db = distinct (map linkKey (duplicates db))"

definition tieN :: article where
  "tieN = artA\<lparr>url := str ''http://b.example/acme-beta'', source := str ''Bloomberg'',
     content := Some (str ''Shareholders of Beta will vote next month.''),
     oid := 2, contentHash := str ''h9''\<rparr>"

definition lateN :: article where
  "lateN = tieN\<lparr>publishedAt := 900000\<rparr>"

definition dbT :: store where
  "dbT = \<lparr>articles = [artA, tieN], duplicates = [], nextOid = 3\<rparr>"

definition dbL :: store where
  "dbL = \<lparr>articles = [artA, lateN], duplicates = [], nextOid = 3\<rparr>"

definition simNA :: "article \<Rightarrow> similarity" where
  "simNA n = scores.extend (calculateSimilarityScore envX defaultConfig n artA) \<lparr>candidate = artA\<rparr>"

definition dupNA :: "article \<Rightarrow> duplicate" where
  "dupNA n = \<lparr>dupArticle = artA, dupSimilarity = simNA n, dupConfidence = overallScore (simNA n)\<rparr>"


text \<open>
  Stores that already hold a link. \<open>dbT1\<close> is \<open>dbT\<close> after a repost of the story of article 1
  was dropped at ingestion. \<open>dbAC\<close> holds the story of source A and a second story, of which
  a repost was dropped.
\<close>

definition dbT1 :: store where
  "dbT1 = \<lparr>articles = [artA, tieN], duplicates = [hashLinkAB], nextOid = 3\<rparr>"

definition rawC :: articleData where
  "rawC = \<lparr>title = Some (str ''Gamma opens Berlin office''), url = str ''http://a.example/gamma-berlin'',
     source = str ''Source A'', category = str ''business'', tags = [str ''offices''],
     content = Some (str ''Gamma said it will open an office in Berlin.''), summary = None,
     publishedAt = 300000\<rparr>"

definition storedC :: article where
  "storedC = articleData.extend (rawC\<lparr>summary := Some (str ''Gamma said it will open an office in Berlin.'')\<rparr>)
     (article.fields 2 (str ''gamma opens berlin office gamma said it will open an office in berlin'')
        [] False False False False None)"

definition hashLinkC :: duplicateLink where
  "hashLinkC = \<lparr>linkOriginalArticleId = 2, linkDuplicateArticleId = None,
     linkDuplicateUrl = Some (str ''http://b.example/story-21''), linkSimilarityScore = 1,
     linkDetectionMethod = ContentHash, linkSimilarityBreakdown = None,
     linkTimeDifference = None\<rparr>"

definition dbAC :: store where
  "dbAC = \<lparr>articles = [storedA, storedC], duplicates = [hashLinkC], nextOid = 3\<rparr>"

section \<open>AlertManager: admission and dispatch\<close>

datatype channel = Webhook | Email | Slack

datatype alertStatus = Pending | Sent | Failed

text \<open>\<^verbatim>\<open>config.alerts\<close>: the cooldown, the hourly limit and the channel switches.\<close>

record alertsConfig =
  cooldownMinutes :: real
  maxAlertsPerHourCfg :: real
  webhookEnabled :: bool
  emailEnabled :: bool
  slackEnabled :: bool

text \<open>
  An alert as \<^verbatim>\<open>processAlert\<close> builds it; times are in milliseconds. The fields copied from
  the article that no decision reads (summary, URL, entities, tags) are left out.
\<close>

record alert =
  alertId :: jsString
  alertArticleId :: nat
  alertTitle :: jsString
  alertSource :: jsString
  alertCategory :: jsString
  alertPriority :: priority
  alertCreatedAt :: int
  alertChannels :: "channel list"
  alertStatus :: alertStatus
  alertSentAt :: "int option"

text \<open>
  The state of the manager: the queue, the map \<^verbatim>\<open>alertHistory\<close> from keys to the time of
  dispatch (in insertion order), the alerts written to the store, and the counters.
\<close>

record alertManager =
  alertQueue :: "alert list"
  alertHistory :: "(jsString \<times> int) list"
  cooldownPeriod :: real
  maxAlertsPerHour :: real
  storedAlerts :: "alert list"
  totalAlerts :: nat
  filteredAlerts :: nat

definition newAlertManager :: "alertsConfig \<Rightarrow> alertManager" where
  "newAlertManager cfg =
     \<lparr>alertQueue = [], alertHistory = [], cooldownPeriod = cooldownMinutes cfg * 60 * 1000,
      maxAlertsPerHour = maxAlertsPerHourCfg cfg, storedAlerts = [], totalAlerts = 0,
      filteredAlerts = 0\<rparr>"

text \<open>\<^verbatim>\<open>checkRateLimit\<close>: the entries of the history younger than one hour are counted.\<close>

definition recentAlerts :: "alertManager \<Rightarrow> int \<Rightarrow> nat" where
  "recentAlerts m now =
     length (filter (\<lambda>(alertKey, alertTime). alertTime > now - 60 * 60 * 1000) (alertHistory m))"

definition checkRateLimit :: "alertManager \<Rightarrow> int \<Rightarrow> bool" where
  "checkRateLimit m now = (real (recentAlerts m now) < maxAlertsPerHour m)"

text \<open>\<^verbatim>\<open>words.join('_')\<close>; the underscore is the code unit 95.\<close>

fun joinUnderscore :: "jsString list \<Rightarrow> jsString" where
  "joinUnderscore [] = []"
| "joinUnderscore [w] = w"
| "joinUnderscore (w # v # ws) = w @ 95 # joinUnderscore (v # ws)"

definition generateArticleKey :: "jsString option \<Rightarrow> jsString \<Rightarrow> jsError + jsString" where
  "generateArticleKey t src =
     (case t of
        None \<Rightarrow> Inl TypeError
      | Some ti \<Rightarrow>
          Inr (src @ str ''_'' @
               joinUnderscore (take 3 (filter (\<lambda>word. length word > 3)
                 (splitWhitespace (stripNonWord (toLowerCase ti)))))))"

definition isInCooldown :: "alertManager \<Rightarrow> int \<Rightarrow> 'a articleData_scheme \<Rightarrow> jsError + bool" where
  "isInCooldown m now a =
     (case generateArticleKey (title a) (source a) of
        Inl e \<Rightarrow> Inl e
      | Inr articleKey \<Rightarrow>
          Inr (list_ex (\<lambda>(alertKey, alertTime).
                          includesStr alertKey articleKey
                          \<and> real_of_int (now - alertTime) < cooldownPeriod m)
                 (alertHistory m)))"

definition meetsQualityThreshold :: "int \<Rightarrow> article \<Rightarrow> bool" where
  "meetsQualityThreshold now a =
     (let contentLength = length (contentOrSummary a);
          s1 = (if contentLength > 500 then 2 else if contentLength > 200 then 1 else (0::nat));
          s2 = (if length (entities a) > 0 then s1 + 1 else s1);
          s3 = (if category a \<in> set [str ''business'', str ''technology'', str ''breaking''] then s2 + 2 else s2);
          s4 = (if source a \<in> set [str ''Reuters'', str ''Bloomberg'', str ''TechCrunch'', str ''Wall Street Journal'']
                then s3 + 1 else s3);
          ageHours = real_of_int (now - publishedAt a) / (1000 * 60 * 60);
          s5 = (if ageHours < 2 then s4 + 1 else s4)
      in s5 \<ge> 3)"

text \<open>\<^verbatim>\<open>shouldSendAlert\<close>: the rate limit, then the cooldown, then the quality.\<close>

definition shouldSendAlert :: "alertManager \<Rightarrow> int \<Rightarrow> article \<Rightarrow> jsError + bool" where
  "shouldSendAlert m now a =
     (if \<not> checkRateLimit m now then Inr False
      else case isInCooldown m now a of
             Inl e \<Rightarrow> Inl e
           | Inr True \<Rightarrow> Inr False
           | Inr False \<Rightarrow> Inr (meetsQualityThreshold now a))"

definition determineChannels :: "alertsConfig \<Rightarrow> article \<Rightarrow> jsError + channel list" where
  "determineChannels cfg a =
     (let c1 = (if webhookEnabled cfg then [Webhook] else [])
      in case (if emailEnabled cfg then calculatePriority a else Inr Low) of
           Inl e \<Rightarrow> Inl e
         | Inr p \<Rightarrow>
             (let c2 = (if emailEnabled cfg \<and> p = High then c1 @ [Email] else c1);
                  c3 = (if slackEnabled cfg \<and> category a \<in> set [str ''business'', str ''technology'']
                        then c2 @ [Slack] else c2)
              in Inr c3))"

text \<open>
  \<^verbatim>\<open>processAlert\<close>: \<open>rnd\<close> is the random part of the alert id. An exception is caught and
  logged, and the state stays as it is.
\<close>

definition processAlert :: "alertsConfig \<Rightarrow> jsString \<Rightarrow> int \<Rightarrow> alertManager \<Rightarrow> article \<Rightarrow> alertManager" where
  "processAlert cfg rnd now m a =
     (case shouldSendAlert m now a of
        Inl e \<Rightarrow> m
      | Inr False \<Rightarrow> m\<lparr>filteredAlerts := Suc (filteredAlerts m)\<rparr>
      | Inr True \<Rightarrow>
          (case (calculatePriority a, determineChannels cfg a) of
             (Inr p, Inr cs) \<Rightarrow>
               m\<lparr>alertQueue := alertQueue m @
                     [\<lparr>alertId = str ''alert_'' @ rnd, alertArticleId = oid a,
                       alertTitle = template (title a), alertSource = source a,
                       alertCategory = category a, alertPriority = p, alertCreatedAt = now,
                       alertChannels = cs, alertStatus = Pending, alertSentAt = None\<rparr>],
                  totalAlerts := Suc (totalAlerts m)\<rparr>
           | _ \<Rightarrow> m))"

text \<open>\<^verbatim>\<open>alertHistory.set(key, time)\<close>: a known key keeps its place and gets the new time.\<close>

fun mapSet :: "('k \<times> 'v) list \<Rightarrow> 'k \<Rightarrow> 'v \<Rightarrow> ('k \<times> 'v) list" where
  "mapSet [] k v = [(k, v)]"
| "mapSet ((k', v') # kvs) k v = (if k' = k then (k, v) # kvs else (k', v') # mapSet kvs k v)"

definition trackAlert :: "alertManager \<Rightarrow> int \<Rightarrow> alert \<Rightarrow> alertManager" where
  "trackAlert m now al =
     (case generateArticleKey (Some (alertTitle al)) (alertSource al) of
        Inr alertKey \<Rightarrow>
          m\<lparr>alertHistory := mapSet (alertHistory m) (alertId al @ str ''_'' @ alertKey) now\<rparr>
      | Inl e \<Rightarrow> m)"

text \<open>
  \<^verbatim>\<open>DatabaseManager.insertAlert\<close> stores \<^verbatim>\<open>{...alert, createdAt: new Date()}\<close>: the stored
  document carries the time of the insertion as its creation time.
\<close>

definition insertAlert :: "alertManager \<Rightarrow> int \<Rightarrow> alert \<Rightarrow> alertManager" where
  "insertAlert m now al = m\<lparr>storedAlerts := storedAlerts m @ [al\<lparr>alertCreatedAt := now\<rparr>]\<rparr>"

text \<open>
  \<^verbatim>\<open>sendAlert\<close>: \<open>succeeded\<close> says, channel by channel, whether the delivery succeeded; the
  alert is stored and then tracked at the time of dispatch.
\<close>

definition sendAlert :: "(channel \<Rightarrow> bool) \<Rightarrow> int \<Rightarrow> alertManager \<Rightarrow> alert \<Rightarrow> alertManager" where
  "sendAlert succeeded now m al =
     (let successCount = length (filter succeeded (alertChannels al));
          al' = al\<lparr>alertStatus := (if successCount > 0 then Sent else Failed),
                   alertSentAt := Some now\<rparr>
      in trackAlert (insertAlert m now al') now al')"

text \<open>\<^verbatim>\<open>processAlertQueue\<close>, which the timer runs every five seconds: one alert per run.\<close>

definition processAlertQueue :: "(channel \<Rightarrow> bool) \<Rightarrow> int \<Rightarrow> alertManager \<Rightarrow> alertManager" where
  "processAlertQueue succeeded now m =
     (case alertQueue m of
        [] \<Rightarrow> m
      | al # rest \<Rightarrow> sendAlert succeeded now (m\<lparr>alertQueue := rest\<rparr>) al)"


text \<open>
  A manager with a limit of two alerts per hour, the alerts that it builds for the example
  articles, and the state with a given queue and nothing dispatched.
\<close>

definition alertsCfg :: alertsConfig where
  "alertsCfg = \<lparr>cooldownMinutes = 5, maxAlertsPerHourCfg = 2, webhookEnabled = True,
     emailEnabled = False, slackEnabled = False\<rparr>"

definition alert1 :: alert where
  "alert1 = \<lparr>alertId = str ''alert_1'', alertArticleId = 1, alertTitle = str ''Acme to acquire Beta'',
     alertSource = str ''Reuters'', alertCategory = str ''business'', alertPriority = Medium,
     alertCreatedAt = 1860000, alertChannels = [Webhook], alertStatus = Pending,
     alertSentAt = None\<rparr>"

definition alert2 :: alert where
  "alert2 = \<lparr>alertId = str ''alert_2'', alertArticleId = 2, alertTitle = str ''Beta acquired by Acme'',
     alertSource = str ''Bloomberg'', alertCategory = str ''markets'', alertPriority = Medium,
     alertCreatedAt = 1861000, alertChannels = [Webhook], alertStatus = Pending,
     alertSentAt = None\<rparr>"

definition alert3 :: alert where
  "alert3 = \<lparr>alertId = str ''alert_3'', alertArticleId = 2, alertTitle = str ''Acme to acquire Beta'',
     alertSource = str ''Bloomberg'', alertCategory = str ''business'', alertPriority = Medium,
     alertCreatedAt = 1862000, alertChannels = [Webhook], alertStatus = Pending,
     alertSentAt = None\<rparr>"

definition mgrQ :: "alert list \<Rightarrow> alertManager" where
  "mgrQ q = \<lparr>alertQueue = q, alertHistory = [], cooldownPeriod = 300000, maxAlertsPerHour = 2,
     storedAlerts = [], totalAlerts = length q, filteredAlerts = 0\<rparr>"

text \<open>
  Three runs of the timer, five seconds apart, each delivering on every channel.
\<close>

definition dispatch3 :: "alertManager \<Rightarrow> alertManager" where
  "dispatch3 m =
     processAlertQueue (\<lambda>c. True) 1875000
       (processAlertQueue (\<lambda>c. True) 1870000
          (processAlertQueue (\<lambda>c. True) 1865000 m))"

text \<open>
  The article behind the sample alert of the README (section Alert Payload Structure), which
  shows the title, the summary, the source, the category \<^verbatim>\<open>business\<close> and the priority
  \<^verbatim>\<open>high\<close>; the article was published on 2024-01-15 at 10:30 UTC.
\<close>

definition readmeArticle :: articleData where
  "readmeArticle = \<lparr>title = Some (str ''Major Acquisition Announced''),
     url = str ''https://techcrunch.com/article-url'', source = str ''TechCrunch'',
     category = str ''business'', tags = [str ''acquisition'', str ''technology'', str ''business''],
     content = None, summary = Some (str ''Company X acquires Company Y for $2B...''),
     publishedAt = 1705314600000\<rparr>"

section \<open>Properties of the content fingerprint\<close>

lemma str_eq_iff [simp]: "str a = str b \<longleftrightarrow> a = b"
proof -
  have "inj (of_char :: char \<Rightarrow> int)" by (rule inj_of_char)
  then show ?thesis unfolding str_def by (rule inj_map_eq_map)
qed

lemma str_eq_Nil [simp]: "str s = [] \<longleftrightarrow> s = []"
  by (simp add: str_def)

lemma lowerUnit_space: "isSpaceChar c \<Longrightarrow> lowerUnit c = [c]"
  by (auto simp: isSpaceChar_def lowerUnit_def isUpperCode_def)

lemma lowerUnit_kept:
  assumes "u \<in> set (lowerUnit c)" "isWordChar u \<or> isSpaceChar u"
  shows "lowerUnit u = [u]"
proof (cases "isSpaceChar u")
  case True
  then show ?thesis by (rule lowerUnit_space)
next
  case False
  with assms(2) have w: "isWordChar u" by simp
  have "\<not> (65 \<le> u \<and> u \<le> 90)"
    using assms(1) by (auto simp: lowerUnit_def isUpperCode_def split: if_splits)
  with w show ?thesis by (auto simp: isWordChar_def lowerUnit_def isUpperCode_def)
qed

lemma toLowerCase_id: "\<forall>c\<in>set s. lowerUnit c = [c] \<Longrightarrow> toLowerCase s = s"
  by (induction s) (simp_all add: toLowerCase_def)

lemma space_isSpace: "isSpaceChar 32"
  by (simp add: isSpaceChar_def)

lemma set_collapseWhitespace: "set (collapseWhitespace s) \<subseteq> insert 32 (set s)"
proof (induction s rule: collapseWhitespace.induct)
  case 1
  then show ?case by simp
next
  case (2 c cs)
  show ?case
  proof (cases "isSpaceChar c")
    case True
    with 2 have "set (collapseWhitespace (dropWhile isSpaceChar cs)) \<subseteq> insert 32 (set (dropWhile isSpaceChar cs))"
      by simp
    moreover have "set (dropWhile isSpaceChar cs) \<subseteq> set cs"
      by (auto dest: set_dropWhileD)
    ultimately show ?thesis using True by auto
  next
    case False
    with 2 show ?thesis by auto
  qed
qed

lemma collapsed_Cons_nonspace: "\<not> isSpaceChar c \<Longrightarrow> collapsed (c # s) = collapsed s"
  by (cases s) auto

lemma collapsed_space_Cons:
  "collapsed (32 # s) = ((s = [] \<or> \<not> isSpaceChar (hd s)) \<and> collapsed s)"
  by (cases s) (auto simp: space_isSpace)

lemma hd_collapse_nonspace:
  "s \<noteq> [] \<Longrightarrow> \<not> isSpaceChar (hd s) \<Longrightarrow> collapseWhitespace s \<noteq> [] \<and> hd (collapseWhitespace s) = hd s"
  by (cases s) auto

lemma collapse_eq_Nil: "collapseWhitespace s = [] \<longleftrightarrow> s = []"
  by (cases s) auto

lemma dropWhile_hd: "dropWhile P s \<noteq> [] \<Longrightarrow> \<not> P (hd (dropWhile P s))"
  by (metis hd_dropWhile)

lemma collapsed_collapse: "collapsed (collapseWhitespace s)"
proof (induction s rule: collapseWhitespace.induct)
  case 1
  then show ?case by simp
next
  case (2 c cs)
  show ?case
  proof (cases "isSpaceChar c")
    case True
    let ?d = "dropWhile isSpaceChar cs"
    have ih: "collapsed (collapseWhitespace ?d)" using 2 True by simp
    have "collapseWhitespace ?d = [] \<or> \<not> isSpaceChar (hd (collapseWhitespace ?d))"
    proof (cases "?d = []")
      case True then show ?thesis by (metis collapseWhitespace.simps(1))
    next
      case False
      then have "\<not> isSpaceChar (hd ?d)" by (rule dropWhile_hd)
      with False show ?thesis using hd_collapse_nonspace by auto
    qed
    with ih True show ?thesis by (simp add: collapsed_space_Cons)
  next
    case False
    with 2 show ?thesis by (simp add: collapsed_Cons_nonspace)
  qed
qed

lemma collapse_collapsed: "collapsed s \<Longrightarrow> collapseWhitespace s = s"
proof (induction s rule: collapsed.induct)
  case 1 then show ?case by simp
next
  case (2 c) then show ?case by auto
next
  case (3 c d cs)
  then show ?case by auto
qed

lemma collapsed_tl: "collapsed (c # s) \<Longrightarrow> collapsed s"
  by (cases s) auto

lemma collapsed_drop: "collapsed s \<Longrightarrow> collapsed (drop n s)"
proof (induction n arbitrary: s)
  case 0 then show ?case by simp
next
  case (Suc n)
  then show ?case by (cases s) (auto dest: collapsed_tl)
qed

lemma collapsed_take: "collapsed s \<Longrightarrow> collapsed (take n s)"
proof (induction s arbitrary: n rule: collapsed.induct)
  case 1 then show ?case by simp
next
  case (2 c) then show ?case by (cases n) auto
next
  case (3 c d cs)
  show ?case
  proof (cases n)
    case 0 then show ?thesis by simp
  next
    case (Suc m)
    show ?thesis
    proof (cases m)
      case 0 with Suc 3 show ?thesis by auto
    next
      case (Suc k)
      have "collapsed (take m (d # cs))" using 3 by auto
      with Suc \<open>n = Suc m\<close> 3(2) show ?thesis by auto
    qed
  qed
qed

lemma trim_take_drop: "\<exists>m k. trim s = take m (drop k s)"
proof -
  have "dropWhile isSpaceChar s = drop (length (takeWhile isSpaceChar s)) s"
    by (rule dropWhile_eq_drop)
  moreover have "\<And>v. rev (dropWhile isSpaceChar (rev v)) = take (length v - length (takeWhile isSpaceChar (rev v))) v"
    by (simp add: dropWhile_eq_drop rev_drop)
  ultimately show ?thesis unfolding trim_def by metis
qed

lemma collapsed_trim: "collapsed s \<Longrightarrow> collapsed (trim s)"
  using trim_take_drop[of s] collapsed_take collapsed_drop by metis

lemma set_trim: "set (trim s) \<subseteq> set s"
  unfolding trim_def by (auto dest!: set_dropWhileD)

lemma dropWhile_self: "s = [] \<or> \<not> P (hd s) \<Longrightarrow> dropWhile P s = s"
  by (cases s) auto

lemma trim_idem: "trim (trim s) = trim s"
proof -
  let ?v = "dropWhile isSpaceChar s"
  let ?w = "dropWhile isSpaceChar (rev ?v)"
  have w: "?w = [] \<or> \<not> isSpaceChar (hd ?w)" using dropWhile_hd by blast
  have r1: "dropWhile isSpaceChar (rev ?w) = rev ?w"
  proof (cases "?w = []")
    case True then show ?thesis by (metis dropWhile.simps(1) rev.simps(1))
  next
    case False
    have "rev ?v = takeWhile isSpaceChar (rev ?v) @ ?w" by simp
    then have "?v = rev ?w @ rev (takeWhile isSpaceChar (rev ?v))"
      by (metis rev_append rev_rev_ident)
    then have "hd ?v = hd (rev ?w)" using False by (metis hd_append2 rev_is_Nil_conv)
    moreover have "?v \<noteq> []" using False by (metis dropWhile.simps(1) rev.simps(1))
    ultimately have "\<not> isSpaceChar (hd (rev ?w))" using dropWhile_hd[of isSpaceChar s] by simp
    then show ?thesis by (intro dropWhile_self) simp
  qed
  have r2: "dropWhile isSpaceChar ?w = ?w" using w by (rule dropWhile_self)
  show ?thesis
    unfolding trim_def r1 by (simp add: r2)
qed

lemma normalize_chars:
  assumes "c \<in> set (normalizeForHashing x)"
  shows "lowerUnit c = [c] \<and> (isWordChar c \<or> isSpaceChar c)"
proof -
  from assms have "c \<in> set (collapseWhitespace (stripNonWord (toLowerCase x)))"
    unfolding normalizeForHashing_def using set_trim by blast
  then have "c = 32 \<or> c \<in> set (stripNonWord (toLowerCase x))"
    using set_collapseWhitespace by blast
  then show ?thesis
  proof
    assume "c = 32" then show ?thesis by (simp add: lowerUnit_space space_isSpace)
  next
    assume "c \<in> set (stripNonWord (toLowerCase x))"
    then obtain d where "c \<in> set (lowerUnit d)" "isWordChar c \<or> isSpaceChar c"
      by (auto simp: stripNonWord_def toLowerCase_def)
    then show ?thesis using lowerUnit_kept by blast
  qed
qed

lemma normalize_idem: "normalizeForHashing (normalizeForHashing x) = normalizeForHashing x"
proof -
  let ?r = "normalizeForHashing x"
  have a: "toLowerCase ?r = ?r"
    by (rule toLowerCase_id) (simp add: normalize_chars)
  have b: "stripNonWord ?r = ?r"
    unfolding stripNonWord_def by (simp add: filter_id_conv normalize_chars)
  have "collapsed ?r"
    unfolding normalizeForHashing_def by (intro collapsed_trim collapsed_collapse)
  then have c: "collapseWhitespace ?r = ?r" by (rule collapse_collapsed)
  have d: "trim ?r = ?r" unfolding normalizeForHashing_def by (rule trim_idem)
  have "normalizeForHashing ?r = trim (collapseWhitespace (stripNonWord (toLowerCase ?r)))"
    by (simp add: normalizeForHashing_def)
  also have "\<dots> = ?r" by (simp only: a b c d)
  finally show ?thesis .
qed

lemma toLowerCase_append: "toLowerCase (a @ b) = toLowerCase a @ toLowerCase b"
  by (simp add: toLowerCase_def)

lemma stripNonWord_append: "stripNonWord (a @ b) = stripNonWord a @ stripNonWord b"
  by (simp add: stripNonWord_def)

lemma lowerUnit_punctuation: "isPunctuation c \<Longrightarrow> stripNonWord (lowerUnit c) = []"
  by (auto simp: isPunctuation_def lowerUnit_def stripNonWord_def isUpperCode_def
      isWordChar_def isSpaceChar_def)

lemma stripPunctuation_lower:
  "stripNonWord (toLowerCase (stripPunctuation s)) = stripNonWord (toLowerCase s)"
proof (induction s)
  case Nil
  then show ?case by (simp add: stripPunctuation_def)
next
  case (Cons c s)
  have d: "toLowerCase (c # t) = lowerUnit c @ toLowerCase t" for t
    by (simp add: toLowerCase_def)
  show ?case
  proof (cases "isPunctuation c")
    case True
    then have "stripPunctuation (c # s) = stripPunctuation s" by (simp add: stripPunctuation_def)
    with Cons True show ?thesis by (simp add: d stripNonWord_append lowerUnit_punctuation)
  next
    case False
    then have "stripPunctuation (c # s) = c # stripPunctuation s" by (simp add: stripPunctuation_def)
    with Cons show ?thesis by (simp add: d stripNonWord_append)
  qed
qed

lemma normalize_case: "toLowerCase x = toLowerCase y \<Longrightarrow> normalizeForHashing x = normalizeForHashing y"
  by (simp add: normalizeForHashing_def)

lemma normalize_punct:
  assumes "stripPunctuation x = stripPunctuation y"
  shows "normalizeForHashing x = normalizeForHashing y"
proof -
  have "stripNonWord (toLowerCase x) = stripNonWord (toLowerCase (stripPunctuation x))"
    by (simp only: stripPunctuation_lower)
  also have "\<dots> = stripNonWord (toLowerCase y)"
    by (simp only: assms stripPunctuation_lower)
  finally show ?thesis by (simp only: normalizeForHashing_def)
qed

lemma collapse_ws_prefix:
  assumes "ws \<noteq> []" "\<forall>c\<in>set ws. isSpaceChar c"
  shows "collapseWhitespace (ws @ v) = 32 # collapseWhitespace (dropWhile isSpaceChar v)"
proof -
  from assms obtain c rest where ws: "ws = c # rest" by (cases ws) auto
  with assms have c: "isSpaceChar c" and rest: "\<And>x. x \<in> set rest \<Longrightarrow> isSpaceChar x" by auto
  have "dropWhile isSpaceChar (rest @ v) = dropWhile isSpaceChar v"
    using rest by (rule dropWhile_append2)
  with c ws show ?thesis by simp
qed

lemma collapse_ws_middle:
  assumes "ws \<noteq> []" "\<forall>c\<in>set ws. isSpaceChar c"
  shows "collapseWhitespace (u @ ws @ v) = collapseWhitespace (u @ 32 # v)"
proof (induction u rule: collapseWhitespace.induct)
  case 1
  have "collapseWhitespace (ws @ v) = 32 # collapseWhitespace (dropWhile isSpaceChar v)"
    using assms by (rule collapse_ws_prefix)
  then show ?case by (simp add: space_isSpace)
next
  case (2 c cs)
  show ?case
  proof (cases "isSpaceChar c")
    case False
    with 2 show ?thesis by simp
  next
    case True
    show ?thesis
    proof (cases "\<forall>x\<in>set cs. isSpaceChar x")
      case allsp: True
      then have "dropWhile isSpaceChar (cs @ ws @ v) = dropWhile isSpaceChar (ws @ v)"
        by (intro dropWhile_append2) simp
      also have "\<dots> = dropWhile isSpaceChar v"
        using assms(2) by (intro dropWhile_append2) simp
      finally have a: "dropWhile isSpaceChar (cs @ ws @ v) = dropWhile isSpaceChar v" .
      have "dropWhile isSpaceChar (cs @ 32 # v) = dropWhile isSpaceChar (32 # v)"
        using allsp by (intro dropWhile_append2) simp
      then have b: "dropWhile isSpaceChar (cs @ 32 # v) = dropWhile isSpaceChar v"
        by (simp add: space_isSpace)
      show ?thesis using True a b by simp
    next
      case False
      then obtain x where x: "x \<in> set cs" "\<not> isSpaceChar x" by blast
      have a: "dropWhile isSpaceChar (cs @ ws @ v) = dropWhile isSpaceChar cs @ ws @ v"
        using x by (rule dropWhile_append1)
      have b: "dropWhile isSpaceChar (cs @ 32 # v) = dropWhile isSpaceChar cs @ 32 # v"
        using x by (rule dropWhile_append1)
      from 2(1)[OF True] True a b show ?thesis by simp
    qed
  qed
qed

lemma strip_lower_ws:
  assumes "\<forall>c\<in>set ws. isSpaceChar c"
  shows "length (stripNonWord (toLowerCase ws)) = length ws \<and> (\<forall>c\<in>set (stripNonWord (toLowerCase ws)). isSpaceChar c)"
  using assms by (induction ws) (auto simp: stripNonWord_def toLowerCase_def lowerUnit_space)

lemma normalize_ws_run:
  assumes "ws \<noteq> []" "\<forall>c\<in>set ws. isSpaceChar c" "ws' \<noteq> []" "\<forall>c\<in>set ws'. isSpaceChar c"
  shows "normalizeForHashing (u @ ws @ v) = normalizeForHashing (u @ ws' @ v)"
proof -
  let ?f = "\<lambda>s. stripNonWord (toLowerCase s)"
  have d: "\<And>a b c. ?f (a @ b @ c) = ?f a @ ?f b @ ?f c"
    by (simp add: toLowerCase_append stripNonWord_append)
  have 1: "?f ws \<noteq> []" "\<forall>c\<in>set (?f ws). isSpaceChar c"
    using strip_lower_ws[OF assms(2)] assms(1) by auto
  have 2: "?f ws' \<noteq> []" "\<forall>c\<in>set (?f ws'). isSpaceChar c"
    using strip_lower_ws[OF assms(4)] assms(3) by auto
  have "collapseWhitespace (?f u @ ?f ws @ ?f v) = collapseWhitespace (?f u @ ?f ws' @ ?f v)"
    using collapse_ws_middle[OF 1] collapse_ws_middle[OF 2] by simp
  then show ?thesis by (simp only: normalizeForHashing_def d)
qed

lemma trim_Cons_space: "isSpaceChar c \<Longrightarrow> trim (c # s) = trim s"
  by (simp add: trim_def)

lemma trim_collapse_dropWhile:
  "trim (collapseWhitespace (dropWhile isSpaceChar s)) = trim (collapseWhitespace s)"
proof (cases s)
  case Nil then show ?thesis by simp
next
  case (Cons c cs)
  then show ?thesis by (simp add: trim_Cons_space space_isSpace)
qed

lemma trim_append_ws:
  assumes "\<forall>c\<in>set ws. isSpaceChar c"
  shows "trim (a @ ws) = trim a"
proof (cases "\<forall>x\<in>set a. isSpaceChar x")
  case True
  then have "dropWhile isSpaceChar (a @ ws) = []" "dropWhile isSpaceChar a = []"
    using assms by auto
  then show ?thesis by (simp only: trim_def)
next
  case False
  then obtain x where x: "x \<in> set a" "\<not> isSpaceChar x" by blast
  have "dropWhile isSpaceChar (a @ ws) = dropWhile isSpaceChar a @ ws"
    using x by (rule dropWhile_append1)
  moreover have "dropWhile isSpaceChar (rev ws @ rev (dropWhile isSpaceChar a)) = dropWhile isSpaceChar (rev (dropWhile isSpaceChar a))"
    using assms by (intro dropWhile_append2) simp
  ultimately show ?thesis by (simp add: trim_def)
qed

lemma collapse_append_ws:
  assumes "\<forall>c\<in>set ws. isSpaceChar c"
  shows "\<exists>t. collapseWhitespace (x @ ws) = collapseWhitespace x @ t \<and> (\<forall>c\<in>set t. isSpaceChar c)"
proof (induction x rule: collapseWhitespace.induct)
  case 1
  show ?case
  proof (cases ws)
    case Nil then show ?thesis by simp
  next
    case (Cons c rest)
    then have "collapseWhitespace ([] @ ws) = 32 # collapseWhitespace (dropWhile isSpaceChar [])"
      using collapse_ws_prefix[of ws "[]"] assms by simp
    then show ?thesis by (simp add: space_isSpace)
  qed
next
  case (2 c cs)
  show ?case
  proof (cases "isSpaceChar c")
    case False
    with 2 show ?thesis by auto
  next
    case True
    show ?thesis
    proof (cases "\<forall>x\<in>set cs. isSpaceChar x")
      case allsp: True
      then have e: "dropWhile isSpaceChar (cs @ ws) = []" "dropWhile isSpaceChar cs = []"
        using assms by auto
      have "collapseWhitespace ((c # cs) @ ws) = 32 # collapseWhitespace (dropWhile isSpaceChar (cs @ ws))"
        using True by simp
      also have "\<dots> = [32]" by (simp only: e collapseWhitespace.simps)
      finally have l: "collapseWhitespace ((c # cs) @ ws) = [32]" .
      have "collapseWhitespace (c # cs) = 32 # collapseWhitespace (dropWhile isSpaceChar cs)"
        using True by simp
      also have "\<dots> = [32]" by (simp only: e collapseWhitespace.simps)
      finally have r: "collapseWhitespace (c # cs) = [32]" .
      show ?thesis unfolding l r by simp
    next
      case False
      then obtain y where y: "y \<in> set cs" "\<not> isSpaceChar y" by blast
      have a: "dropWhile isSpaceChar (cs @ ws) = dropWhile isSpaceChar cs @ ws"
        using y by (rule dropWhile_append1)
      from 2(1)[OF True] obtain t where
        "collapseWhitespace (dropWhile isSpaceChar cs @ ws) = collapseWhitespace (dropWhile isSpaceChar cs) @ t"
        "\<forall>c\<in>set t. isSpaceChar c" by blast
      then show ?thesis using True a by simp
    qed
  qed
qed

lemma normalize_ws_ends:
  assumes "\<forall>c\<in>set ws. isSpaceChar c" "\<forall>c\<in>set ws'. isSpaceChar c"
  shows "normalizeForHashing (ws @ x @ ws') = normalizeForHashing x"
proof -
  let ?f = "\<lambda>s. stripNonWord (toLowerCase s)"
  have d: "?f (ws @ x @ ws') = ?f ws @ ?f x @ ?f ws'"
    by (simp add: toLowerCase_append stripNonWord_append)
  have 1: "\<forall>c\<in>set (?f ws). isSpaceChar c" using strip_lower_ws[OF assms(1)] by simp
  have 2: "\<forall>c\<in>set (?f ws'). isSpaceChar c" using strip_lower_ws[OF assms(2)] by simp
  obtain t where t: "collapseWhitespace (?f x @ ?f ws') = collapseWhitespace (?f x) @ t" "\<forall>c\<in>set t. isSpaceChar c"
    using collapse_append_ws[OF 2] by blast
  have tail: "trim (collapseWhitespace (?f x @ ?f ws')) = trim (collapseWhitespace (?f x))"
    using t trim_append_ws by simp
  have "trim (collapseWhitespace (?f ws @ ?f x @ ?f ws')) = trim (collapseWhitespace (?f x @ ?f ws'))"
  proof (cases "?f ws = []")
    case True then show ?thesis by simp
  next
    case False
    have "collapseWhitespace (?f ws @ ?f x @ ?f ws') = 32 # collapseWhitespace (dropWhile isSpaceChar (?f x @ ?f ws'))"
      using False 1 by (rule collapse_ws_prefix)
    then show ?thesis by (simp add: trim_Cons_space space_isSpace trim_collapse_dropWhile)
  qed
  with tail show ?thesis by (simp only: normalizeForHashing_def d)
qed

text \<open>
  Claim C10, as amended. \<open>normalizeForHashing\<close> is idempotent, and two articles get the same
  content hash, whatever the digest, when the texts that are hashed
  \<^item> agree after lower-casing (they differ only in letter case), or
  \<^item> agree after the punctuation is deleted: the characters that are neither word characters
    nor white space, other than U+0130 and U+212A, which become the letters \<^verbatim>\<open>i\<close> and \<^verbatim>\<open>k\<close>
    in lower case, or
  \<^item> differ in one run of whitespace, each text having a non-empty run at that place, or
  \<^item> differ in leading and trailing whitespace.
  Differences of several kinds compose by transitivity. Whitespace that one text has
  between two word characters and the other has not is outside these cases.
\<close>

theorem normalizeForHashing_stable:
  "normalizeForHashing (normalizeForHashing x) = normalizeForHashing x
   \<and> (toLowerCase (hashText a) = toLowerCase (hashText b) \<longrightarrow>
        generateContentHash digest a = generateContentHash digest b)
   \<and> (stripPunctuation (hashText a) = stripPunctuation (hashText b) \<longrightarrow>
        generateContentHash digest a = generateContentHash digest b)
   \<and> (hashText a = u @ ws @ v \<and> hashText b = u @ ws' @ v \<and> ws \<noteq> [] \<and> ws' \<noteq> []
        \<and> list_all isSpaceChar ws \<and> list_all isSpaceChar ws' \<longrightarrow>
        generateContentHash digest a = generateContentHash digest b)
   \<and> (hashText a = ws @ hashText b @ ws' \<and> list_all isSpaceChar ws \<and> list_all isSpaceChar ws' \<longrightarrow>
        generateContentHash digest a = generateContentHash digest b)"
proof (intro conjI impI)
  show "normalizeForHashing (normalizeForHashing x) = normalizeForHashing x"
    by (rule normalize_idem)
next
  assume "toLowerCase (hashText a) = toLowerCase (hashText b)"
  then have "normalizeForHashing (hashText a) = normalizeForHashing (hashText b)"
    by (rule normalize_case)
  then show "generateContentHash digest a = generateContentHash digest b"
    by (simp add: generateContentHash_def)
next
  assume "stripPunctuation (hashText a) = stripPunctuation (hashText b)"
  then have "normalizeForHashing (hashText a) = normalizeForHashing (hashText b)"
    by (rule normalize_punct)
  then show "generateContentHash digest a = generateContentHash digest b"
    by (simp add: generateContentHash_def)
next
  assume h: "hashText a = u @ ws @ v \<and> hashText b = u @ ws' @ v \<and> ws \<noteq> [] \<and> ws' \<noteq> []
        \<and> list_all isSpaceChar ws \<and> list_all isSpaceChar ws'"
  then have "normalizeForHashing (u @ ws @ v) = normalizeForHashing (u @ ws' @ v)"
    by (intro normalize_ws_run) (simp_all add: list_all_iff)
  with h show "generateContentHash digest a = generateContentHash digest b"
    by (simp add: generateContentHash_def)
next
  assume h: "hashText a = ws @ hashText b @ ws' \<and> list_all isSpaceChar ws \<and> list_all isSpaceChar ws'"
  then have "normalizeForHashing (ws @ hashText b @ ws') = normalizeForHashing (hashText b)"
    by (intro normalize_ws_ends) (simp_all add: list_all_iff)
  with h show "generateContentHash digest a = generateContentHash digest b"
    by (simp add: generateContentHash_def)
qed

text \<open>
  The titles of the witness: \<open>titleCurly\<close> is \<^verbatim>\<open>Acme's deal\<close> written with the apostrophe
  U+2019 (8217) and followed by the ideographic space U+3000 (12288).
\<close>

theorem normalizeForHashing_stable_witness:
  "normalizeForHashing (normalizeForHashing (str ''  Acme,  Inc. '')) = normalizeForHashing (str ''  Acme,  Inc. '')
   \<and> generateContentHash (\<lambda>s. s) (hashedA (str ''ACME Buys Beta'') (str ''Deal closed.''))
       = str ''acme buys beta deal closed''
   \<and> generateContentHash (\<lambda>s. s) (hashedA (str ''Acme buys Beta'') (str ''deal closed''))
       = str ''acme buys beta deal closed''
   \<and> generateContentHash (\<lambda>s. s) (hashedA (str ''  Acme   buys Beta!'') (str ''deal closed  ''))
       = str ''acme buys beta deal closed''
   \<and> generateContentHash (\<lambda>s. s) (hashedA (str ''Acme'' @ [8217] @ str ''s deal'' @ [12288]) (str ''closed''))
       = generateContentHash (\<lambda>s. s) (hashedA (str ''Acmes deal '') (str ''closed''))"
proof -
  let ?A = "hashedA (str ''ACME Buys Beta'') (str ''Deal closed.'')"
  let ?A1 = "hashedA (str ''acme buys beta'') (str ''deal closed.'')"
  let ?B = "hashedA (str ''Acme buys Beta'') (str ''deal closed'')"
  let ?B1 = "hashedA (str ''acme buys beta'') (str ''deal closed'')"
  let ?C = "hashedA (str ''  Acme   buys Beta!'') (str ''deal closed  '')"
  let ?C1 = "hashedA (str ''Acme   buys Beta!'') (str ''deal closed'')"
  let ?C2 = "hashedA (str ''Acme buys Beta!'') (str ''deal closed'')"
  let ?D = "hashedA (str ''Acme'' @ [8217] @ str ''s deal'' @ [12288]) (str ''closed'')"
  let ?D1 = "hashedA (str ''Acmes deal'' @ [12288]) (str ''closed'')"
  let ?D2 = "hashedA (str ''Acmes deal '') (str ''closed'')"
  let ?d = "\<lambda>s::jsString. s"
  note T = normalizeForHashing_stable
  have i: "normalizeForHashing (normalizeForHashing (str ''  Acme,  Inc. '')) = normalizeForHashing (str ''  Acme,  Inc. '')"
    using T[of "str ''  Acme,  Inc. ''"] by blast
  have "toLowerCase (hashText ?A) = toLowerCase (hashText ?A1)" by code_simp
  then have a: "generateContentHash ?d ?A = generateContentHash ?d ?A1"
    using T[where a="?A" and b="?A1" and digest="?d"] by blast
  have "stripPunctuation (hashText ?A1) = stripPunctuation (hashText ?B1)" by code_simp
  then have a1: "generateContentHash ?d ?A1 = generateContentHash ?d ?B1"
    using T[where a="?A1" and b="?B1" and digest="?d"] by blast
  have "toLowerCase (hashText ?B) = toLowerCase (hashText ?B1)" by code_simp
  then have b: "generateContentHash ?d ?B = generateContentHash ?d ?B1"
    using T[where a="?B" and b="?B1" and digest="?d"] by blast
  have "hashText ?C = str ''  '' @ hashText ?C1 @ str ''  ''
      \<and> list_all isSpaceChar (str ''  '') \<and> list_all isSpaceChar (str ''  '')"
    by code_simp
  then have c: "generateContentHash ?d ?C = generateContentHash ?d ?C1"
    using T[where a="?C" and b="?C1" and digest="?d" and ws="str ''  ''" and ws'="str ''  ''"] by blast
  have "hashText ?C1 = str ''Acme'' @ str ''   '' @ str ''buys Beta! deal closed''
        \<and> hashText ?C2 = str ''Acme'' @ str '' '' @ str ''buys Beta! deal closed''
        \<and> str ''   '' \<noteq> [] \<and> str '' '' \<noteq> []
        \<and> list_all isSpaceChar (str ''   '') \<and> list_all isSpaceChar (str '' '')"
    by code_simp
  then have c1: "generateContentHash ?d ?C1 = generateContentHash ?d ?C2"
    using T[where a="?C1" and b="?C2" and digest="?d" and u="str ''Acme''" and ws="str ''   ''"
        and ws'="str '' ''" and v="str ''buys Beta! deal closed''"] by blast
  have "stripPunctuation (hashText ?C2) = stripPunctuation (hashText ?B)" by code_simp
  then have c2: "generateContentHash ?d ?C2 = generateContentHash ?d ?B"
    using T[where a="?C2" and b="?B" and digest="?d"] by blast
  have e: "generateContentHash ?d ?B1 = str ''acme buys beta deal closed''" by code_simp
  have "stripPunctuation (hashText ?D) = stripPunctuation (hashText ?D1)" by code_simp
  then have d1: "generateContentHash ?d ?D = generateContentHash ?d ?D1"
    using T[where a="?D" and b="?D1" and digest="?d"] by blast
  have "hashText ?D1 = str ''Acmes deal'' @ [12288] @ str '' closed''
        \<and> hashText ?D2 = str ''Acmes deal'' @ str '' '' @ str '' closed''
        \<and> [12288] \<noteq> ([]::jsString) \<and> str '' '' \<noteq> []
        \<and> list_all isSpaceChar [12288] \<and> list_all isSpaceChar (str '' '')"
    by code_simp
  then have d2: "generateContentHash ?d ?D1 = generateContentHash ?d ?D2"
    using T[where a="?D1" and b="?D2" and digest="?d" and u="str ''Acmes deal''" and ws="[12288]"
        and ws'="str '' ''" and v="str '' closed''"] by blast
  from i a a1 b c c1 c2 e d1 d2 show ?thesis by (simp only:)
qed

text \<open>
  Claim C10 as stated fails: \<^verbatim>\<open>News room opens\<close> and \<^verbatim>\<open>Newsroom opens\<close> differ only in
  whitespace, \<^verbatim>\<open>Well-known brand\<close> and \<^verbatim>\<open>Well known brand\<close> only in a hyphen against a
  space, and the normalised texts of each pair differ, so that the digests are taken of
  different inputs. Punctuation is deleted, not replaced by a space, and whitespace is
  collapsed, not deleted.
\<close>

theorem hash_whitespace_counterexample:
  "differOnlyInFormat (hashText (hashedA (str ''News room'') (str ''opens'')))
      (hashText (hashedA (str ''Newsroom'') (str ''opens'')))
   \<and> normalizeForHashing (hashText (hashedA (str ''News room'') (str ''opens''))) = str ''news room opens''
   \<and> normalizeForHashing (hashText (hashedA (str ''Newsroom'') (str ''opens''))) = str ''newsroom opens''
   \<and> \<not> (\<forall>digest. generateContentHash digest (hashedA (str ''News room'') (str ''opens''))
        = generateContentHash digest (hashedA (str ''Newsroom'') (str ''opens'')))
   \<and> differOnlyInFormat (str ''Well-known brand'') (str ''Well known brand'')
   \<and> normalizeForHashing (str ''Well-known brand'') = str ''wellknown brand''
   \<and> normalizeForHashing (str ''Well known brand'') = str ''well known brand''"
proof (intro conjI)
  let ?a = "hashedA (str ''News room'') (str ''opens'')"
  let ?b = "hashedA (str ''Newsroom'') (str ''opens'')"
  show "differOnlyInFormat (hashText ?a) (hashText ?b)" by code_simp
  show "normalizeForHashing (hashText ?a) = str ''news room opens''" by code_simp
  show "normalizeForHashing (hashText ?b) = str ''newsroom opens''" by code_simp
  have "generateContentHash (\<lambda>s. s) ?a \<noteq> generateContentHash (\<lambda>s. s) ?b" by code_simp
  then show "\<not> (\<forall>digest. generateContentHash digest ?a = generateContentHash digest ?b)" by blast
  show "differOnlyInFormat (str ''Well-known brand'') (str ''Well known brand'')" by code_simp
  show "normalizeForHashing (str ''Well-known brand'') = str ''wellknown brand''" by code_simp
  show "normalizeForHashing (str ''Well known brand'') = str ''well known brand''" by code_simp
qed

text \<open>
  The capital I with a dot and the Kelvin sign leave a letter in the normalised text; the
  apostrophe U+2019 and the Greek capital sigma U+03A3 (931) leave nothing, and the
  ideographic space is a space.
\<close>

lemma normalizeForHashing_wide_examples:
  "normalizeForHashing ([304] @ str ''stanbul'') = str ''istanbul''
   \<and> normalizeForHashing (str ''273 '' @ [8490]) = str ''273 k''
   \<and> normalizeForHashing (str ''Acme'' @ [8217] @ str ''s'' @ [12288, 931] @ str ''deal'') = str ''acmes deal''"
  by code_simp

section \<open>Properties of the alert priority\<close>

text \<open>
  What \<open>calculatePriority\<close> computes for an article with a title. The branch on the category
  is the last assignment of the source, so it decides for the categories \<^verbatim>\<open>breaking\<close>,
  \<^verbatim>\<open>business\<close> and \<^verbatim>\<open>entertainment\<close>; the keywords and the money amount decide for the
  other categories only.
\<close>

lemma calculatePriority_by_category:
  assumes "title a = Some t"
  shows "calculatePriority a =
     Inr (if category a = str ''breaking'' then High
          else if category a = str ''business'' then Medium
          else if category a = str ''entertainment'' then Low
          else if list_ex (includesStr (toLowerCase t)) breakingKeywords
                  \<or> list_ex (includesStr (toLowerCase t)) highImpactKeywords
                  \<or> moneyTest (contentOrSummary a)
          then High else Medium)"
  using assms by (simp add: calculatePriority_def Let_def)

text \<open>
  Claim C7 against the code. The README shows an alert with the title
  \<^verbatim>\<open>Major Acquisition Announced\<close>, the category \<^verbatim>\<open>business\<close> and the priority \<^verbatim>\<open>high\<close>, as the
  claim has it: the title contains the business-impact keyword \<^verbatim>\<open>acquisition\<close>. For this
  article \<open>calculatePriority\<close> returns medium: the keyword raises the priority to high, and
  the branch on the category, which runs last, sets it back to medium. In the same way an
  article of the category \<^verbatim>\<open>technology\<close> with this title gets high, a business article
  whose title has \<^verbatim>\<open>breaking\<close> and \<^verbatim>\<open>merger\<close> and whose content mentions a billion gets
  medium, and an entertainment article with such a title gets low.
\<close>

theorem calculatePriority_readme_alert:
  "title readmeArticle = Some (str ''Major Acquisition Announced'')
   \<and> category readmeArticle = str ''business''
   \<and> list_ex (includesStr (toLowerCase (str ''Major Acquisition Announced''))) highImpactKeywords
   \<and> calculatePriority readmeArticle = Inr Medium
   \<and> calculatePriority (readmeArticle\<lparr>category := str ''technology''\<rparr>) = Inr High
   \<and> list_ex (includesStr (toLowerCase (str ''Breaking: Acme merger''))) breakingKeywords
   \<and> moneyTest (str ''worth $2 billion'')
   \<and> calculatePriority (readmeArticle\<lparr>title := Some (str ''Breaking: Acme merger''),
          content := Some (str ''worth $2 billion'')\<rparr>) = Inr Medium
   \<and> calculatePriority (readmeArticle\<lparr>title := Some (str ''Breaking: Acme merger''),
          content := Some (str ''worth $2 billion''), category := str ''entertainment''\<rparr>) = Inr Low"
proof (intro conjI)
  show "title readmeArticle = Some (str ''Major Acquisition Announced'')"
    and "category readmeArticle = str ''business''"
    by (simp_all add: readmeArticle_def)
  show "list_ex (includesStr (toLowerCase (str ''Major Acquisition Announced''))) highImpactKeywords"
    by code_simp
  show "calculatePriority readmeArticle = Inr Medium"
    by code_simp
  show "calculatePriority (readmeArticle\<lparr>category := str ''technology''\<rparr>) = Inr High"
    by code_simp
  show "list_ex (includesStr (toLowerCase (str ''Breaking: Acme merger''))) breakingKeywords"
    by code_simp
  show "moneyTest (str ''worth $2 billion'')"
    by code_simp
  show "calculatePriority (readmeArticle\<lparr>title := Some (str ''Breaking: Acme merger''),
          content := Some (str ''worth $2 billion'')\<rparr>) = Inr Medium"
    by code_simp
  show "calculatePriority (readmeArticle\<lparr>title := Some (str ''Breaking: Acme merger''),
          content := Some (str ''worth $2 billion''), category := str ''entertainment''\<rparr>) = Inr Low"
    by code_simp
qed

section \<open>Sets as insertion-ordered lists\<close>

lemma set_foldl_setAdd: "set (foldl setAdd acc xs) = set acc \<union> set xs"
  by (induction xs arbitrary: acc) (auto simp: setAdd_def)

lemma distinct_foldl_setAdd: "distinct acc \<Longrightarrow> distinct (foldl setAdd acc xs)"
  by (induction xs arbitrary: acc) (auto simp: setAdd_def)

lemma set_newSet: "set (newSet xs) = set xs"
  by (simp add: newSet_def set_foldl_setAdd)

lemma distinct_newSet: "distinct (newSet xs)"
  by (simp add: newSet_def distinct_foldl_setAdd)

lemma length_newSet: "length (newSet xs) = card (set xs)"
  using distinct_card[OF distinct_newSet, of xs] by (simp add: set_newSet)

lemma length_newSet_inter:
  "length (filter (\<lambda>x. x \<in> set (newSet ys)) (newSet xs)) = card (set xs \<inter> set ys)"
proof -
  have "distinct (filter (\<lambda>x. x \<in> set (newSet ys)) (newSet xs))"
    by (simp add: distinct_newSet)
  then have "length (filter (\<lambda>x. x \<in> set (newSet ys)) (newSet xs))
      = card (set (filter (\<lambda>x. x \<in> set (newSet ys)) (newSet xs)))"
    by (rule distinct_card[symmetric])
  also have "set (filter (\<lambda>x. x \<in> set (newSet ys)) (newSet xs)) = set xs \<inter> set ys"
    by (auto simp: set_newSet)
  finally show ?thesis .
qed

lemma card_inter_le_max: "card (set xs \<inter> set ys) \<le> max (card (set xs)) (card (set ys))"
proof -
  have "card (set xs \<inter> set ys) \<le> card (set xs)"
    by (intro card_mono) auto
  then show ?thesis by simp
qed

lemma tagOverlapRatio_range: "0 \<le> tagOverlapRatio xs ys \<and> tagOverlapRatio xs ys \<le> 1"
proof (cases "xs = [] \<and> ys = []")
  case True then show ?thesis by (simp add: tagOverlapRatio_def)
next
  case False
  then have pos: "0 < max (card (set xs)) (card (set ys))"
    by (auto simp: card_gt_0_iff less_max_iff_disj)
  have "real (card (set xs \<inter> set ys)) \<le> real (max (card (set xs)) (card (set ys)))"
    using card_inter_le_max[of xs ys] by linarith
  with pos False show ?thesis
    by (simp add: tagOverlapRatio_def)
qed


section \<open>The cosine of two vectors\<close>

lemma cosineLoop_sums:
  "length as = length bs \<Longrightarrow>
   cosineLoop as bs (d, na, nb) = (d + dot as bs, na + sumSquares as, nb + sumSquares bs)"
proof (induction as bs arbitrary: d na nb rule: list_induct2)
  case Nil
  then show ?case by (simp add: dot_def sumSquares_def)
next
  case (Cons a as b bs)
  then show ?case by (simp add: dot_def sumSquares_def algebra_simps)
qed






lemma cosineSimilarity_eq:
  "cosineSimilarity as bs =
     (if length as \<noteq> length bs \<or> sqrt (sumSquares as) * sqrt (sumSquares bs) = 0 then 0
      else dot as bs / (sqrt (sumSquares as) * sqrt (sumSquares bs)))"
  by (simp add: cosineSimilarity_def cosineLoop_sums Let_def)




section \<open>The pairwise TF-IDF similarity\<close>

text \<open>
  With two documents, a term that both contain has the inverse document frequency
  \<open>ln (2 / 2) = 0\<close>, and a term that one of them lacks has term frequency 0 there: the
  two vectors are orthogonal and the content similarity is 0 for every pair of articles.
\<close>

lemma tf_absent: "term \<notin> set document \<Longrightarrow> tf term document = 0"
proof -
  assume "term \<notin> set document"
  then have "filter (\<lambda>word. word = term) document = []"
    by (auto simp: filter_empty_conv)
  then show ?thesis by (simp add: tf_def)
qed

lemma idf_shared:
  assumes "term \<in> set d1" "term \<in> set d2"
  shows "idf [d1, d2] term = 0"
  using assms by (simp add: idf_def documentFrequency_def)

lemma tfidf_product_zero: "tfidf [d1, d2] term 0 * tfidf [d1, d2] term (Suc 0) = 0"
proof (cases "term \<in> set d1 \<and> term \<in> set d2")
  case True
  then show ?thesis by (simp add: tfidf_def idf_shared)
next
  case False
  then have "tf term d1 = 0 \<or> tf term d2 = 0" using tf_absent by blast
  then show ?thesis by (auto simp: tfidf_def)
qed

lemma dot_map: "dot (map f xs) (map g xs) = sum_list (map (\<lambda>x. f x * g x) xs)"
  by (induction xs) (simp_all add: dot_def)

lemma dot_vectors_zero: "dot (getVector [d1, d2] 0) (getVector [d1, d2] (Suc 0)) = 0"
proof -
  have "sum_list (map (\<lambda>t. tfidf [d1, d2] t 0 * tfidf [d1, d2] t (Suc 0)) xs) = 0" for xs
    by (induction xs) (simp_all add: tfidf_product_zero)
  then show ?thesis by (simp add: getVector_def dot_map)
qed

lemma tfidfSimilarity_pair_zero: "tfidfSimilarity [d1, d2] 0 (Suc 0) = 0"
proof -
  have "cosineSimilarity (getVector [d1, d2] 0) (getVector [d1, d2] (Suc 0)) = 0"
    by (simp add: cosineSimilarity_eq dot_vectors_zero)
  then show ?thesis by (simp add: tfidfSimilarity_def Let_def)
qed

lemma calculateContentSimilarity_zero: "calculateContentSimilarity env article1 article2 = 0"
  by (simp add: calculateContentSimilarity_def Let_def tfidfSimilarity_pair_zero)

section \<open>Properties of the source alignment\<close>

lemma calculateSourceAlignment_min:
  "calculateSourceAlignment article1 article2 =
     min (0.4 * of_bool (source article1 = source article2)
          + 0.3 * of_bool (category article1 = category article2)
          + 0.3 * tagOverlapRatio (tags article1) (tags article2)) 1"
proof -
  have m: "(max (card (set (tags article1))) (card (set (tags article2))) > 0)
      = (\<not> (tags article1 = [] \<and> tags article2 = []))"
    by (auto simp: card_gt_0_iff less_max_iff_disj)
  show ?thesis
    unfolding calculateSourceAlignment_def Let_def length_newSet length_newSet_inter m
    by (auto simp: tagOverlapRatio_def of_bool_def)
qed


text \<open>
  Claim C8, as amended. The source alignment is 0.4 for the same source, plus 0.3 for the
  same category, plus 0.3 times the number of common tags divided by the size of the larger
  of the two tag sets (0 when neither article has a tag); it lies between 0 and 1.
\<close>

theorem calculateSourceAlignment_formula:
  "calculateSourceAlignment article1 article2 =
      0.4 * of_bool (source article1 = source article2)
      + 0.3 * of_bool (category article1 = category article2)
      + 0.3 * tagOverlapRatio (tags article1) (tags article2)
   \<and> 0 \<le> calculateSourceAlignment article1 article2
   \<and> calculateSourceAlignment article1 article2 \<le> 1"
proof -
  let ?r = "tagOverlapRatio (tags article1) (tags article2)"
  let ?f = "0.4 * of_bool (source article1 = source article2)
      + 0.3 * of_bool (category article1 = category article2) + 0.3 * ?r"
  have r: "0 \<le> ?r" "?r \<le> 1" using tagOverlapRatio_range by auto
  have f: "0 \<le> ?f" "?f \<le> 1" using r by (auto simp: of_bool_def)
  have "calculateSourceAlignment article1 article2 = min ?f 1"
    by (rule calculateSourceAlignment_min)
  with f show ?thesis by (simp add: min_def)
qed

theorem calculateSourceAlignment_formula_witness:
  "calculateSourceAlignment artA artB = 0.15
   \<and> 0 \<le> calculateSourceAlignment artA artB \<and> calculateSourceAlignment artA artB \<le> 1"
proof -
  have "0.4 * of_bool (source artA = source artB)
      + 0.3 * of_bool (category artA = category artB)
      + 0.3 * tagOverlapRatio (tags artA) (tags artB) = (0.15 :: real)"
    by code_simp
  with calculateSourceAlignment_formula[of artA artB] show ?thesis by simp
qed

text \<open>
  Claim C8 as stated fails: with the tags \<^verbatim>\<open>deals, tech\<close> and \<^verbatim>\<open>deals, finance\<close>, another
  source and another category, the code gives 0.3 \<open>\<cdot>\<close> 1/2 = 0.15, and the Jaccard similarity
  of the tag sets is 1/3, which would give 0.1.
\<close>

theorem calculateSourceAlignment_counterexample:
  "calculateSourceAlignment artA artB = 0.15 \<and> specSourceAlignment artA artB = 0.1
   \<and> calculateSourceAlignment artA artB \<noteq> specSourceAlignment artA artB"
  by code_simp


section \<open>Properties of the overall score\<close>

text \<open>
  Claim C5. When the content hashes are equal, the overall score is 1.0 and the method is
  the content hash. Otherwise the overall score is the weighted sum of the six signals,
  the weights of title, content and entity similarity coming from the configuration,
  whose values are 0.4, 0.4 and 0.2.
\<close>

theorem calculateSimilarityScore_overall:
  "(contentHash article1 = contentHash article2 \<longrightarrow>
      overallScore (calculateSimilarityScore env weights article1 article2) = 1.0
      \<and> scoreMethod (calculateSimilarityScore env weights article1 article2) = ContentHash)
   \<and> (contentHash article1 \<noteq> contentHash article2 \<longrightarrow>
      overallScore (calculateSimilarityScore env weights article1 article2) =
        titleWeight weights * calculateTextSimilarity env (title article1) (title article2)
        + contentWeight weights * calculateContentSimilarity env article1 article2
        + entityWeight weights * calculateEntitySimilarity (entities article1) (entities article2)
        + 0.30 * calculateSemanticSimilarity env article1 article2
        + 0.10 * calculateTemporalProximity (publishedAt article1) (publishedAt article2)
        + 0.10 * calculateSourceAlignment article1 article2)
   \<and> titleWeight defaultConfig = 0.4 \<and> contentWeight defaultConfig = 0.4
   \<and> entityWeight defaultConfig = 0.2"
proof (intro conjI impI)
  assume "contentHash article1 = contentHash article2"
  then show "overallScore (calculateSimilarityScore env weights article1 article2) = 1.0"
    and "scoreMethod (calculateSimilarityScore env weights article1 article2) = ContentHash"
    by (simp_all add: calculateSimilarityScore_def)
next
  assume "contentHash article1 \<noteq> contentHash article2"
  then have "overallScore (calculateSimilarityScore env weights article1 article2) =
        calculateTextSimilarity env (title article1) (title article2) * titleWeight weights
        + calculateContentSimilarity env article1 article2 * contentWeight weights
        + calculateEntitySimilarity (entities article1) (entities article2) * entityWeight weights
        + calculateSemanticSimilarity env article1 article2 * 0.3
        + calculateTemporalProximity (publishedAt article1) (publishedAt article2) * 0.1
        + calculateSourceAlignment article1 article2 * 0.1"
    by (simp add: calculateSimilarityScore_def Let_def)
  then show "overallScore (calculateSimilarityScore env weights article1 article2) =
        titleWeight weights * calculateTextSimilarity env (title article1) (title article2)
        + contentWeight weights * calculateContentSimilarity env article1 article2
        + entityWeight weights * calculateEntitySimilarity (entities article1) (entities article2)
        + 0.30 * calculateSemanticSimilarity env article1 article2
        + 0.10 * calculateTemporalProximity (publishedAt article1) (publishedAt article2)
        + 0.10 * calculateSourceAlignment article1 article2"
    by (simp add: mult.commute)
next
  show "titleWeight defaultConfig = 0.4" "contentWeight defaultConfig = 0.4"
    "entityWeight defaultConfig = 0.2"
    by (simp_all add: defaultConfig_def)
qed



theorem calculateSimilarityScore_overall_witness:
  "contentHash artA = contentHash (artB\<lparr>contentHash := str ''h1''\<rparr>)
   \<and> overallScore (calculateSimilarityScore envX defaultConfig artA (artB\<lparr>contentHash := str ''h1''\<rparr>)) = 1
   \<and> scoreMethod (calculateSimilarityScore envX defaultConfig artA (artB\<lparr>contentHash := str ''h1''\<rparr>)) = ContentHash
   \<and> contentHash artA \<noteq> contentHash artB
   \<and> overallScore (calculateSimilarityScore envX defaultConfig artA artB) = 2697 / 4000"
proof -
  note T = calculateSimilarityScore_overall
  have h1: "contentHash artA = contentHash (artB\<lparr>contentHash := str ''h1''\<rparr>)"
    by (simp add: artA_def artB_def)
  have h2: "contentHash artA \<noteq> contentHash artB"
    by (simp add: artA_def artB_def)
  have a: "overallScore (calculateSimilarityScore envX defaultConfig artA (artB\<lparr>contentHash := str ''h1''\<rparr>)) = 1
     \<and> scoreMethod (calculateSimilarityScore envX defaultConfig artA (artB\<lparr>contentHash := str ''h1''\<rparr>)) = ContentHash"
    using T[of artA "artB\<lparr>contentHash := str ''h1''\<rparr>" envX defaultConfig] h1 by simp
  have t: "calculateTextSimilarity envX (title artA) (title artB) = 13/30" by code_simp
  have e: "calculateEntitySimilarity (entities artA) (entities artB) = 1/2" by code_simp
  have p: "calculateTemporalProximity (publishedAt artA) (publishedAt artB) = 47/48" by code_simp
  have s: "calculateSourceAlignment artA artB = 15/100" by code_simp
  have c: "calculateContentSimilarity envX artA artB = 0" by (rule calculateContentSimilarity_zero)
  have m: "calculateSemanticSimilarity envX artA artB = 24/25"
    by (simp add: calculateSemanticSimilarity_def envX_def artA_def artB_def cosineSimilarity_def)
  have "overallScore (calculateSimilarityScore envX defaultConfig artA artB) =
        titleWeight defaultConfig * calculateTextSimilarity envX (title artA) (title artB)
        + contentWeight defaultConfig * calculateContentSimilarity envX artA artB
        + entityWeight defaultConfig * calculateEntitySimilarity (entities artA) (entities artB)
        + 0.30 * calculateSemanticSimilarity envX artA artB
        + 0.10 * calculateTemporalProximity (publishedAt artA) (publishedAt artB)
        + 0.10 * calculateSourceAlignment artA artB"
    using T[of artA artB envX defaultConfig] h2 by blast
  then have b: "overallScore (calculateSimilarityScore envX defaultConfig artA artB) = 2697 / 4000"
    by (simp add: t e p s c m defaultConfig_def)
  from h1 h2 a b show ?thesis by blast
qed

section \<open>Properties of the duplicate decision\<close>

lemma identifyDuplicates_filter:
  "identifyDuplicates th sims =
     map (\<lambda>s. \<lparr>dupArticle = candidate s, dupSimilarity = s, dupConfidence = overallScore s\<rparr>)
       (filter (\<lambda>s. overallScore s \<ge> thresholdFor th (scoreMethod s)) sims)"
  by (induction sims) (simp_all add: Let_def)

lemma identifyDuplicates_single:
  "thresholdFor th (scoreMethod s) \<le> overallScore s \<Longrightarrow>
   identifyDuplicates th [s] =
     [\<lparr>dupArticle = candidate s, dupSimilarity = s, dupConfidence = overallScore s\<rparr>]"
  by (simp add: Let_def)

lemma dupSimilarity_identifyDuplicates:
  "dupSimilarity ` set (identifyDuplicates th sims)
     = {s \<in> set sims. overallScore s \<ge> thresholdFor th (scoreMethod s)}"
  by (auto simp: identifyDuplicates_filter image_iff)

text \<open>
  Claim C4, as amended. A scored candidate whose primary method is the content hash, the
  title, the semantic or the content similarity is declared a duplicate if and only if its
  overall score reaches the threshold of that method: 1.0 for the content hash, 0.9 for the
  title, and the configured similarity threshold, 0.85 unless configured otherwise, for
  both the semantic and the content similarity.
\<close>

theorem identifyDuplicates_thresholds:
  assumes "scoreMethod s \<in> {ContentHash, TitleSimilarity, SemanticSimilarity, ContentSimilarity}"
  shows "((s \<in> dupSimilarity ` set (identifyDuplicates (thresholdsOf cfg) sims))
         = (s \<in> set sims \<and>
            overallScore s \<ge> (if scoreMethod s = ContentHash then 1.0
                               else if scoreMethod s = TitleSimilarity then 0.9
                               else similarityThreshold cfg)))
        \<and> similarityThreshold defaultConfig = 0.85"
  using assms
  by (auto simp: dupSimilarity_identifyDuplicates thresholdFor_def thresholdsOf_def defaultConfig_def)

lemma score_artA_artB:
  "calculateSimilarityScore envX cfg artA artB =
     \<lparr>contentHashScore = 0, titleSimilarity = Some (13/30), contentSimilarity = Some 0,
      entitySimilarity = Some (1/2), semanticSimilarity = Some (24/25),
      temporalProximity = Some (47/48), sourceAlignment = Some (15/100),
      overallScore = (13/30) * titleWeight cfg + (1/2) * entityWeight cfg + 4811/12000,
      scoreMethod = SemanticSimilarity\<rparr>"
proof -
  have h: "contentHash artA \<noteq> contentHash artB" by (simp add: artA_def artB_def)
  have t: "calculateTextSimilarity envX (title artA) (title artB) = 13/30" by code_simp
  have e: "calculateEntitySimilarity (entities artA) (entities artB) = 1/2" by code_simp
  have p: "calculateTemporalProximity (publishedAt artA) (publishedAt artB) = 47/48" by code_simp
  have s: "calculateSourceAlignment artA artB = 15/100" by code_simp
  have c: "calculateContentSimilarity envX artA artB = 0" by (rule calculateContentSimilarity_zero)
  have m: "calculateSemanticSimilarity envX artA artB = 24/25"
    by (simp add: calculateSemanticSimilarity_def envX_def artA_def artB_def cosineSimilarity_def)
  show ?thesis
    using h by (simp add: calculateSimilarityScore_def Let_def t e p s c m determinePrimaryMethod_def)
qed

lemma simAB_overall:
  "titleWeight cfg = 0.4 \<Longrightarrow> entityWeight cfg = 0.2 \<Longrightarrow> overallScore (simAB cfg) = 2697/4000"
  by (simp add: simAB_def score_artA_artB scores.defs)

lemma simAB_method: "scoreMethod (simAB cfg) = SemanticSimilarity"
  by (simp add: simAB_def score_artA_artB scores.defs)

lemma simAB_candidate: "candidate (simAB cfg) = artB"
  by (simp add: simAB_def score_artA_artB scores.defs)

lemma analyze_artA_artB:
  assumes "titleWeight cfg = 0.4" "entityWeight cfg = 0.2"
  shows "analyzeSimilarities envX cfg artA [artB] = [simAB cfg]"
proof -
  have "overallScore (simAB cfg) > 0.3"
    using assms by (simp add: simAB_overall)
  then show ?thesis
    by (simp add: analyzeSimilarities_def simAB_def)
qed

theorem identifyDuplicates_thresholds_witness:
  "scoreMethod (simAB defaultConfig) \<in> {ContentHash, TitleSimilarity, SemanticSimilarity, ContentSimilarity}
   \<and> overallScore (simAB defaultConfig) = 2697/4000
   \<and> simAB defaultConfig \<notin> dupSimilarity ` set (identifyDuplicates (thresholdsOf defaultConfig) [simAB defaultConfig])
   \<and> simAB defaultConfig \<in> dupSimilarity `
         set (identifyDuplicates (thresholdsOf (defaultConfig\<lparr>similarityThreshold := 0.6\<rparr>)) [simAB defaultConfig])"
proof -
  let ?s = "simAB defaultConfig"
  let ?c = "defaultConfig\<lparr>similarityThreshold := 0.6\<rparr>"
  have h: "scoreMethod ?s \<in> {ContentHash, TitleSimilarity, SemanticSimilarity, ContentSimilarity}"
    by (simp add: simAB_method)
  have o: "overallScore ?s = 2697/4000"
    by (rule simAB_overall) (simp_all add: defaultConfig_def)
  have m: "scoreMethod ?s = SemanticSimilarity" by (rule simAB_method)
  have t1: "similarityThreshold defaultConfig = 0.85" by (simp add: defaultConfig_def)
  have t2: "similarityThreshold ?c = 0.6" by simp
  have "(?s \<in> dupSimilarity ` set (identifyDuplicates (thresholdsOf defaultConfig) [?s]))
       = (?s \<in> set [?s] \<and> overallScore ?s \<ge> (if scoreMethod ?s = ContentHash then 1.0
                               else if scoreMethod ?s = TitleSimilarity then 0.9
                               else similarityThreshold defaultConfig))"
    using identifyDuplicates_thresholds[OF h, of defaultConfig "[?s]"] by blast
  also have "\<dots> = False" unfolding o m t1 by simp
  finally have a: "?s \<notin> dupSimilarity ` set (identifyDuplicates (thresholdsOf defaultConfig) [?s])"
    by blast
  have "(?s \<in> dupSimilarity ` set (identifyDuplicates (thresholdsOf ?c) [?s]))
       = (?s \<in> set [?s] \<and> overallScore ?s \<ge> (if scoreMethod ?s = ContentHash then 1.0
                               else if scoreMethod ?s = TitleSimilarity then 0.9
                               else similarityThreshold ?c))"
    using identifyDuplicates_thresholds[OF h, of ?c "[?s]"] by blast
  also have "\<dots> = True" unfolding o m t2 by simp
  finally have b: "?s \<in> dupSimilarity ` set (identifyDuplicates (thresholdsOf ?c) [?s])"
    by blast
  from h o a b show ?thesis by blast
qed

text \<open>
  Claim C4 as stated fails for the semantic method: its threshold is the configured
  similarity threshold, not the constant 0.85. With the threshold configured to 0.6, a
  candidate whose primary method is the semantic similarity and whose overall score is
  0.67425 is declared a duplicate.
\<close>

theorem identifyDuplicates_counterexample:
  "scoreMethod (simAB (defaultConfig\<lparr>similarityThreshold := 0.6\<rparr>)) = SemanticSimilarity
   \<and> overallScore (simAB (defaultConfig\<lparr>similarityThreshold := 0.6\<rparr>)) = 2697/4000
   \<and> \<not> overallScore (simAB (defaultConfig\<lparr>similarityThreshold := 0.6\<rparr>)) \<ge> 0.85
   \<and> identifyDuplicates (thresholdsOf (defaultConfig\<lparr>similarityThreshold := 0.6\<rparr>))
         (analyzeSimilarities envX (defaultConfig\<lparr>similarityThreshold := 0.6\<rparr>) artA [artB])
       = [\<lparr>dupArticle = artB, dupSimilarity = simAB (defaultConfig\<lparr>similarityThreshold := 0.6\<rparr>),
           dupConfidence = 2697/4000\<rparr>]"
proof -
  let ?c = "defaultConfig\<lparr>similarityThreshold := 0.6\<rparr>"
  have w: "titleWeight ?c = 0.4" "entityWeight ?c = 0.2" by (simp_all add: defaultConfig_def)
  have o: "overallScore (simAB ?c) = 2697/4000" using w by (rule simAB_overall)
  have m: "scoreMethod (simAB ?c) = SemanticSimilarity" by (rule simAB_method)
  have an: "analyzeSimilarities envX ?c artA [artB] = [simAB ?c]" using w by (rule analyze_artA_artB)
  have t: "thresholdFor (thresholdsOf ?c) SemanticSimilarity = 0.6"
    by (simp add: thresholdFor_def thresholdsOf_def)
  have le: "thresholdFor (thresholdsOf ?c) (scoreMethod (simAB ?c)) \<le> overallScore (simAB ?c)"
    unfolding m t o by simp
  have "identifyDuplicates (thresholdsOf ?c) [simAB ?c]
      = [\<lparr>dupArticle = candidate (simAB ?c), dupSimilarity = simAB ?c,
          dupConfidence = overallScore (simAB ?c)\<rparr>]"
    using le by (rule identifyDuplicates_single)
  then have d: "identifyDuplicates (thresholdsOf ?c) (analyzeSimilarities envX ?c artA [artB])
      = [\<lparr>dupArticle = artB, dupSimilarity = simAB ?c, dupConfidence = 2697/4000\<rparr>]"
    unfolding o simAB_candidate an .
  have n: "\<not> overallScore (simAB ?c) \<ge> 0.85" unfolding o by simp
  from m o n d show ?thesis by (intro conjI)
qed

section \<open>Ranges of the similarity signals\<close>









section \<open>Properties of the signals together\<close>

lemma calculateTextSimilarity_empty:
  "calculateTextSimilarity env None t2 = 0"
  "calculateTextSimilarity env t1 None = 0"
  "calculateTextSimilarity env (Some []) t2 = 0"
  "calculateTextSimilarity env t1 (Some []) = 0"
  by (auto simp: calculateTextSimilarity_def split: option.splits)

lemma calculateTextSimilarity_blank:
  "normalizeText s = [] \<Longrightarrow> calculateTextSimilarity env (Some s) t2 = 0"
  "normalizeText s = [] \<Longrightarrow> calculateTextSimilarity env t1 (Some s) = 0"
  by (auto simp: calculateTextSimilarity_def Let_def split: option.splits)







section \<open>Ingestion of an item with a known content hash\<close>

lemma find_Some_mem: "find P xs = Some x \<Longrightarrow> x \<in> set xs \<and> P x"
  by (induction xs) (auto split: if_splits)




section \<open>Election of the original\<close>

lemma electOriginal_pick: "electOriginal a dups = foldl pick a (map dupArticle dups)"
  unfolding electOriginal_def pick_def ..

lemma foldl_pick_first_min:
  "\<exists>pre post. a # xs = pre @ foldl pick a xs # post
      \<and> (\<forall>m\<in>set pre. publishedAt (foldl pick a xs) < publishedAt m)
      \<and> (\<forall>m\<in>set post. publishedAt (foldl pick a xs) \<le> publishedAt m)"
proof (induction xs rule: rev_induct)
  case Nil
  have "a # [] = [] @ foldl pick a [] # []" by simp
  then show ?case by fastforce
next
  case (snoc x xs)
  let ?r = "foldl pick a xs"
  from snoc obtain pre post where
    s: "a # xs = pre @ ?r # post"
    and p: "\<forall>m\<in>set pre. publishedAt ?r < publishedAt m"
    and q: "\<forall>m\<in>set post. publishedAt ?r \<le> publishedAt m" by blast
  show ?case
  proof (cases "publishedAt x < publishedAt ?r")
    case True
    then have r: "foldl pick a (xs @ [x]) = x" by (simp add: pick_def)
    have "a # xs @ [x] = (a # xs) @ x # []" by simp
    moreover have "\<forall>m\<in>set (a # xs). publishedAt x < publishedAt m"
    proof
      fix m assume "m \<in> set (a # xs)"
      then have "m \<in> set pre \<or> m = ?r \<or> m \<in> set post" using s
        by (metis Un_iff insert_iff list.simps(15) set_append)
      with p q True show "publishedAt x < publishedAt m" by force
    qed
    ultimately show ?thesis unfolding r by (metis empty_iff empty_set)
  next
    case False
    then have r: "foldl pick a (xs @ [x]) = ?r" by (simp add: pick_def)
    have "a # xs @ [x] = pre @ ?r # (post @ [x])" using s by simp
    moreover have "\<forall>m\<in>set (post @ [x]). publishedAt ?r \<le> publishedAt m"
      using q False by auto
    ultimately show ?thesis unfolding r using p by blast
  qed
qed

lemma electOriginal_first_min:
  "\<exists>pre post. a # map dupArticle dups = pre @ electOriginal a dups # post
      \<and> (\<forall>m\<in>set pre. publishedAt (electOriginal a dups) < publishedAt m)
      \<and> (\<forall>m\<in>set post. publishedAt (electOriginal a dups) \<le> publishedAt m)"
  unfolding electOriginal_pick by (rule foldl_pick_first_min)

lemma electOriginal_member: "electOriginal a dups \<in> set (a # map dupArticle dups)"
  using electOriginal_first_min[of a dups] by (metis in_set_conv_decomp)

lemma electOriginal_earliest:
  "m \<in> set (a # map dupArticle dups) \<Longrightarrow> publishedAt (electOriginal a dups) \<le> publishedAt m"
proof -
  assume m: "m \<in> set (a # map dupArticle dups)"
  obtain pre post where s: "a # map dupArticle dups = pre @ electOriginal a dups # post"
    and p: "\<forall>m\<in>set pre. publishedAt (electOriginal a dups) < publishedAt m"
    and q: "\<forall>m\<in>set post. publishedAt (electOriginal a dups) \<le> publishedAt m"
    using electOriginal_first_min by blast
  from m s have "m \<in> set pre \<or> m = electOriginal a dups \<or> m \<in> set post"
    by (metis Un_iff insert_iff list.simps(15) set_append)
  with p q show ?thesis by force
qed

section \<open>Recording links and marking articles\<close>

lemma insertDuplicate_Inr:
  "insertDuplicate db l = Inr db' \<Longrightarrow>
     db' = db\<lparr>duplicates := duplicates db @ [l]\<rparr> \<and> linkKey l \<notin> linkKey ` set (duplicates db)"
  by (force simp: insertDuplicate_def list_ex_iff image_iff split: if_splits)

lemma insertDuplicate_Inl:
  assumes "insertDuplicate db l = Inl e"
  shows "linkKey l \<in> linkKey ` set (duplicates db)"
proof -
  from assms have "list_ex (\<lambda>k. linkKey k = linkKey l) (duplicates db)"
    by (simp add: insertDuplicate_def split: if_splits)
  then obtain k where "k \<in> set (duplicates db)" "linkKey k = linkKey l"
    by (auto simp: list_ex_iff)
  then show ?thesis by (metis imageI)
qed

lemma insertDuplicate_fresh:
  "linkKey l \<notin> linkKey ` set (duplicates db) \<Longrightarrow>
     insertDuplicate db l = Inr (db\<lparr>duplicates := duplicates db @ [l]\<rparr>)"
  by (force simp: insertDuplicate_def list_ex_iff image_iff)

lemma insertDuplicate_unique:
  "linksUnique db \<Longrightarrow> insertDuplicate db l = Inr db' \<Longrightarrow> linksUnique db'"
  by (auto simp: linksUnique_def dest!: insertDuplicate_Inr)

text \<open>Whatever the outcome, the loop has appended the links of a prefix of the duplicates.\<close>

lemma recordDuplicates_prefix:
  "recordDuplicates db orig ds = (db', r) \<Longrightarrow>
     \<exists>k. db' = db\<lparr>duplicates := duplicates db @ map (linkFor orig) (take k ds)\<rparr>
         \<and> (r = None \<longrightarrow> k = length ds)"
proof (induction ds arbitrary: db)
  case Nil
  then show ?case by simp
next
  case (Cons d ds)
  show ?case
  proof (cases "insertDuplicate db (linkFor orig d)")
    case (Inl e)
    with Cons.prems have "db' = db" "r = Some e" by auto
    then have "db' = db\<lparr>duplicates := duplicates db @ map (linkFor orig) (take 0 (d # ds))\<rparr>
        \<and> (r = None \<longrightarrow> 0 = length (d # ds))" by simp
    then show ?thesis by blast
  next
    case (Inr db1)
    with Cons.prems have "recordDuplicates db1 orig ds = (db', r)" by simp
    from Cons.IH[OF this] obtain k where
      k: "db' = db1\<lparr>duplicates := duplicates db1 @ map (linkFor orig) (take k ds)\<rparr>"
         "r = None \<longrightarrow> k = length ds" by blast
    from Inr have "db1 = db\<lparr>duplicates := duplicates db @ [linkFor orig d]\<rparr>"
      by (auto dest: insertDuplicate_Inr)
    with k have "db' = db\<lparr>duplicates := duplicates db @ map (linkFor orig) (take (Suc k) (d # ds))\<rparr>
        \<and> (r = None \<longrightarrow> Suc k = length (d # ds))" by simp
    then show ?thesis by blast
  qed
qed

lemma recordDuplicates_unique:
  "linksUnique db \<Longrightarrow> recordDuplicates db orig ds = (db', r) \<Longrightarrow> linksUnique db'"
proof (induction ds arbitrary: db)
  case Nil
  then show ?case by simp
next
  case (Cons d ds)
  show ?case
  proof (cases "insertDuplicate db (linkFor orig d)")
    case (Inl e)
    with Cons.prems show ?thesis by auto
  next
    case (Inr db1)
    with Cons.prems have "recordDuplicates db1 orig ds = (db', r)" by simp
    moreover have "linksUnique db1" using Cons.prems(1) Inr by (rule insertDuplicate_unique)
    ultimately show ?thesis by (rule Cons.IH[rotated])
  qed
qed

lemma linkKey_linkFor: "linkKey (linkFor orig d) = (oid orig, Some (oid (dupArticle d)))"
  by (simp add: linkKey_def linkFor_def)

text \<open>With fresh, pairwise different keys every insertion succeeds.\<close>

lemma recordDuplicates_fresh:
  assumes "distinct (map (\<lambda>d. oid (dupArticle d)) ds)"
    and "\<forall>d\<in>set ds. (oid orig, Some (oid (dupArticle d))) \<notin> linkKey ` set (duplicates db)"
  shows "recordDuplicates db orig ds
           = (db\<lparr>duplicates := duplicates db @ map (linkFor orig) ds\<rparr>, None)"
  using assms
proof (induction ds arbitrary: db)
  case Nil
  then show ?case by simp
next
  case (Cons d ds)
  let ?db1 = "db\<lparr>duplicates := duplicates db @ [linkFor orig d]\<rparr>"
  have f: "insertDuplicate db (linkFor orig d) = Inr ?db1"
    using Cons.prems(2) by (intro insertDuplicate_fresh) (simp add: linkKey_linkFor)
  have fr: "\<forall>e\<in>set ds. (oid orig, Some (oid (dupArticle e))) \<notin> linkKey ` set (duplicates ?db1)"
    using Cons.prems by (force simp: linkKey_linkFor image_iff)
  have di: "distinct (map (\<lambda>d. oid (dupArticle d)) ds)" using Cons.prems(1) by simp
  have "recordDuplicates ?db1 orig ds
      = (?db1\<lparr>duplicates := duplicates ?db1 @ map (linkFor orig) ds\<rparr>, None)"
    using di fr by (rule Cons.IH)
  with f show ?case by simp
qed

lemma updateOne_distinct:
  assumes "distinct (map g xs)" "\<And>x. g (f x) = g x"
  shows "map g (updateOne (\<lambda>x. g x = i) f xs) = map g xs
     \<and> (\<forall>y\<in>set (updateOne (\<lambda>x. g x = i) f xs). g y = i \<longrightarrow> (\<exists>x\<in>set xs. g x = i \<and> y = f x))"
  using assms(1)
proof (induction xs)
  case Nil
  then show ?case by simp
next
  case (Cons x xs)
  show ?case
  proof (cases "g x = i")
    case True
    with Cons.prems have "\<forall>y\<in>set xs. g y \<noteq> i" by (force simp: image_iff)
    with True show ?thesis by (auto simp: assms(2))
  next
    case False
    with Cons show ?thesis by auto
  qed
qed

lemma updateOne_exists:
  "\<exists>x\<in>set xs. g x = i \<Longrightarrow> (\<And>x. g (f x) = g x) \<Longrightarrow>
     \<exists>y\<in>set (updateOne (\<lambda>x. g x = i) f xs). g y = i"
  by (induction xs) auto

section \<open>Properties of the election\<close>

lemma recordDuplicates_articles:
  "recordDuplicates db orig ds = (db', r) \<Longrightarrow> articles db' = articles db \<and> nextOid db' = nextOid db"
  by (drule recordDuplicates_prefix) auto

lemma mark_flags:
  assumes "distinct (map oid xs)" "\<exists>x\<in>set xs. oid x = i"
    and "\<And>x. oid (f x) = oid x"
  shows "(\<exists>y\<in>set (updateOne (\<lambda>x. oid x = i) f xs). oid y = i)
     \<and> (\<forall>y\<in>set (updateOne (\<lambda>x. oid x = i) f xs). oid y = i \<longrightarrow> (\<exists>x. y = f x))"
proof -
  have "\<exists>y\<in>set (updateOne (\<lambda>x. oid x = i) f xs). oid y = i"
    using assms(2,3) by (rule updateOne_exists)
  moreover have "\<forall>y\<in>set (updateOne (\<lambda>x. oid x = i) f xs). oid y = i \<longrightarrow> (\<exists>x\<in>set xs. oid x = i \<and> y = f x)"
    using updateOne_distinct[of oid xs f i] assms(1,3) by blast
  ultimately show ?thesis by blast
qed

text \<open>
  Claim C3, as amended. The elected original is a member of the set with the earliest
  publication time; among members with that time it is the first in the order of the
  reduction, which starts with the new article and continues with the declared duplicates
  as listed (by descending overall score). When the links to be written are not in the
  store yet, a link to the elected original is recorded for every declared duplicate other
  than the original, and the new article is marked as not a duplicate, with the event
  emitted, exactly when it has the id of the elected original; otherwise it is marked as a
  duplicate of the elected original.
\<close>

theorem processDuplicates_election:
  assumes "\<forall>d\<in>set dups. (oid (electOriginal a dups), Some (oid (dupArticle d)))
              \<notin> linkKey ` set (duplicates db)"
    and "distinct (map (\<lambda>d. oid (dupArticle d)) dups)"
    and "distinct (map oid (articles db))"
    and "\<exists>x\<in>set (articles db). oid x = oid a"
  shows "electOriginal a dups \<in> set (a # map dupArticle dups)
    \<and> (\<forall>m\<in>set (a # map dupArticle dups). publishedAt (electOriginal a dups) \<le> publishedAt m)
    \<and> (\<exists>pre post. a # map dupArticle dups = pre @ electOriginal a dups # post
          \<and> (\<forall>m\<in>set pre. publishedAt (electOriginal a dups) < publishedAt m))
    \<and> (\<exists>db'. processDuplicates db a dups
                 = (db', Inr (if oid a = oid (electOriginal a dups) then [a] else []))
          \<and> (\<forall>d\<in>set dups. oid (dupArticle d) \<noteq> oid (electOriginal a dups) \<longrightarrow>
                linkFor (electOriginal a dups) d \<in> set (duplicates db'))
          \<and> (\<exists>x\<in>set (articles db'). oid x = oid a)
          \<and> (\<forall>x\<in>set (articles db'). oid x = oid a \<longrightarrow>
                duplicateChecked x
                \<and> isDuplicate x = (oid a \<noteq> oid (electOriginal a dups))
                \<and> (oid a \<noteq> oid (electOriginal a dups) \<longrightarrow>
                      originalArticleId x = Some (oid (electOriginal a dups)))))"
proof (intro conjI)
  let ?o = "electOriginal a dups"
  let ?db1 = "db\<lparr>duplicates := duplicates db @ map (linkFor ?o) dups\<rparr>"
  show "?o \<in> set (a # map dupArticle dups)" by (rule electOriginal_member)
  show "\<forall>m\<in>set (a # map dupArticle dups). publishedAt ?o \<le> publishedAt m"
    using electOriginal_earliest by blast
  show "\<exists>pre post. a # map dupArticle dups = pre @ ?o # post
          \<and> (\<forall>m\<in>set pre. publishedAt ?o < publishedAt m)"
    using electOriginal_first_min[of a dups] by blast
  have rec: "recordDuplicates db ?o dups = (?db1, None)"
    using assms(2,1) by (rule recordDuplicates_fresh)
  have links: "\<forall>d\<in>set dups. linkFor ?o d \<in> set (duplicates ?db1)" by simp
  show "\<exists>db'. processDuplicates db a dups = (db', Inr (if oid a = oid ?o then [a] else []))
          \<and> (\<forall>d\<in>set dups. oid (dupArticle d) \<noteq> oid ?o \<longrightarrow> linkFor ?o d \<in> set (duplicates db'))
          \<and> (\<exists>x\<in>set (articles db'). oid x = oid a)
          \<and> (\<forall>x\<in>set (articles db'). oid x = oid a \<longrightarrow>
                duplicateChecked x \<and> isDuplicate x = (oid a \<noteq> oid ?o)
                \<and> (oid a \<noteq> oid ?o \<longrightarrow> originalArticleId x = Some (oid ?o)))"
  proof (cases "oid a = oid ?o")
    case True
    let ?f = "\<lambda>x::article. x\<lparr>processed := True, duplicateChecked := True, isDuplicate := False\<rparr>"
    have p: "processDuplicates db a dups = (markAsUnique ?db1 a, Inr [a])"
      using True rec by (simp add: processDuplicates_def Let_def)
    have ar: "articles (markAsUnique ?db1 a) = updateOne (\<lambda>x. oid x = oid a) ?f (articles db)"
      by (simp add: markAsUnique_def updateArticle_def)
    have du: "duplicates (markAsUnique ?db1 a) = duplicates ?db1"
      by (simp add: markAsUnique_def updateArticle_def)
    have fl: "(\<exists>y\<in>set (articles (markAsUnique ?db1 a)). oid y = oid a)
      \<and> (\<forall>y\<in>set (articles (markAsUnique ?db1 a)). oid y = oid a \<longrightarrow> (\<exists>x. y = ?f x))"
      unfolding ar using assms(3,4) by (rule mark_flags) simp
    have "\<forall>x\<in>set (articles (markAsUnique ?db1 a)). oid x = oid a \<longrightarrow>
            duplicateChecked x \<and> isDuplicate x = (oid a \<noteq> oid ?o)
            \<and> (oid a \<noteq> oid ?o \<longrightarrow> originalArticleId x = Some (oid ?o))"
      using fl True by fastforce
    with p du links fl True show ?thesis by auto
  next
    case False
    let ?f = "\<lambda>x::article. x\<lparr>processed := True, duplicateChecked := True, isDuplicate := True,
               originalArticleId := Some (oid ?o)\<rparr>"
    have p: "processDuplicates db a dups = (markAsDuplicate ?db1 a (oid ?o), Inr [])"
      using False rec by (simp add: processDuplicates_def Let_def)
    have ar: "articles (markAsDuplicate ?db1 a (oid ?o)) = updateOne (\<lambda>x. oid x = oid a) ?f (articles db)"
      by (simp add: markAsDuplicate_def updateArticle_def)
    have du: "duplicates (markAsDuplicate ?db1 a (oid ?o)) = duplicates ?db1"
      by (simp add: markAsDuplicate_def updateArticle_def)
    have fl: "(\<exists>y\<in>set (articles (markAsDuplicate ?db1 a (oid ?o))). oid y = oid a)
      \<and> (\<forall>y\<in>set (articles (markAsDuplicate ?db1 a (oid ?o))). oid y = oid a \<longrightarrow> (\<exists>x. y = ?f x))"
      unfolding ar using assms(3,4) by (rule mark_flags) simp
    have "\<forall>x\<in>set (articles (markAsDuplicate ?db1 a (oid ?o))). oid x = oid a \<longrightarrow>
            duplicateChecked x \<and> isDuplicate x = (oid a \<noteq> oid ?o)
            \<and> (oid a \<noteq> oid ?o \<longrightarrow> originalArticleId x = Some (oid ?o))"
      using fl False by fastforce
    with p du links fl False show ?thesis by auto
  qed
qed

section \<open>Two runs of the engine\<close>

lemma cos_43: "cosineSimilarity [4, 3] [3, 4] = 24/25"
  by (simp add: cosineSimilarity_def)

lemma score_tieN:
  "calculateSimilarityScore envX defaultConfig tieN artA =
     \<lparr>contentHashScore = 0, titleSimilarity = Some 1, contentSimilarity = Some 0,
      entitySimilarity = Some 1, semanticSimilarity = Some (24/25),
      temporalProximity = Some 1, sourceAlignment = Some (3/5),
      overallScore = 131/125, scoreMethod = TitleSimilarity\<rparr>"
proof -
  have h: "contentHash tieN \<noteq> contentHash artA" by (simp add: tieN_def artA_def)
  have t: "calculateTextSimilarity envX (title tieN) (title artA) = 1" by code_simp
  have e: "calculateEntitySimilarity (entities tieN) (entities artA) = 1" by code_simp
  have p: "calculateTemporalProximity (publishedAt tieN) (publishedAt artA) = 1" by code_simp
  have s: "calculateSourceAlignment tieN artA = 3/5" by code_simp
  have c: "calculateContentSimilarity envX tieN artA = 0" by (rule calculateContentSimilarity_zero)
  have m: "calculateSemanticSimilarity envX tieN artA = 24/25"
    by (simp add: calculateSemanticSimilarity_def envX_def tieN_def artA_def cos_43)
  show ?thesis
    using h by (simp add: calculateSimilarityScore_def Let_def t e p s c m
        determinePrimaryMethod_def defaultConfig_def)
qed

lemma score_lateN:
  "calculateSimilarityScore envX defaultConfig lateN artA =
     \<lparr>contentHashScore = 0, titleSimilarity = Some 1, contentSimilarity = Some 0,
      entitySimilarity = Some 1, semanticSimilarity = Some (24/25),
      temporalProximity = Some (95/96), sourceAlignment = Some (3/5),
      overallScore = 25127/24000, scoreMethod = TitleSimilarity\<rparr>"
proof -
  have h: "contentHash lateN \<noteq> contentHash artA" by (simp add: lateN_def tieN_def artA_def)
  have t: "calculateTextSimilarity envX (title lateN) (title artA) = 1" by code_simp
  have e: "calculateEntitySimilarity (entities lateN) (entities artA) = 1" by code_simp
  have p: "calculateTemporalProximity (publishedAt lateN) (publishedAt artA) = 95/96" by code_simp
  have s: "calculateSourceAlignment lateN artA = 3/5" by code_simp
  have c: "calculateContentSimilarity envX lateN artA = 0" by (rule calculateContentSimilarity_zero)
  have m: "calculateSemanticSimilarity envX lateN artA = 24/25"
    by (simp add: calculateSemanticSimilarity_def envX_def lateN_def tieN_def artA_def cos_43)
  show ?thesis
    using h by (simp add: calculateSimilarityScore_def Let_def t e p s c m
        determinePrimaryMethod_def defaultConfig_def)
qed

lemma candidates_dbT: "getCandidateArticles defaultConfig 60000 dbT tieN = [artA]"
  by code_simp

lemma candidates_dbL: "getCandidateArticles defaultConfig 960000 dbL lateN = [artA]"
  by code_simp

lemma simNA_tie: "overallScore (simNA tieN) = 131/125" "scoreMethod (simNA tieN) = TitleSimilarity"
  "candidate (simNA tieN) = artA"
  by (simp_all add: simNA_def score_tieN scores.defs)

lemma simNA_late: "overallScore (simNA lateN) = 25127/24000" "scoreMethod (simNA lateN) = TitleSimilarity"
  "candidate (simNA lateN) = artA"
  by (simp_all add: simNA_def score_lateN scores.defs)

lemma analyze_single:
  "overallScore (scores.extend (calculateSimilarityScore env cfg n c) \<lparr>candidate = c\<rparr>) > 0.3 \<Longrightarrow>
   analyzeSimilarities env cfg n [c] = [scores.extend (calculateSimilarityScore env cfg n c) \<lparr>candidate = c\<rparr>]"
  by (simp add: analyzeSimilarities_def)

lemma dups_tie:
  "identifyDuplicates (thresholdsOf defaultConfig) (analyzeSimilarities envX defaultConfig tieN [artA])
     = [dupNA tieN]"
proof -
  have "overallScore (simNA tieN) > 0.3" unfolding simNA_tie by simp
  then have a: "analyzeSimilarities envX defaultConfig tieN [artA] = [simNA tieN]"
    unfolding simNA_def by (rule analyze_single)
  have "thresholdFor (thresholdsOf defaultConfig) (scoreMethod (simNA tieN)) \<le> overallScore (simNA tieN)"
    unfolding simNA_tie by (simp add: thresholdFor_def thresholdsOf_def)
  then have "identifyDuplicates (thresholdsOf defaultConfig) [simNA tieN] =
     [\<lparr>dupArticle = candidate (simNA tieN), dupSimilarity = simNA tieN,
       dupConfidence = overallScore (simNA tieN)\<rparr>]"
    by (rule identifyDuplicates_single)
  then show ?thesis unfolding a dupNA_def simNA_tie(3) .
qed

lemma dups_late:
  "identifyDuplicates (thresholdsOf defaultConfig) (analyzeSimilarities envX defaultConfig lateN [artA])
     = [dupNA lateN]"
proof -
  have "overallScore (simNA lateN) > 0.3" unfolding simNA_late by simp
  then have a: "analyzeSimilarities envX defaultConfig lateN [artA] = [simNA lateN]"
    unfolding simNA_def by (rule analyze_single)
  have "thresholdFor (thresholdsOf defaultConfig) (scoreMethod (simNA lateN)) \<le> overallScore (simNA lateN)"
    unfolding simNA_late by (simp add: thresholdFor_def thresholdsOf_def)
  then have "identifyDuplicates (thresholdsOf defaultConfig) [simNA lateN] =
     [\<lparr>dupArticle = candidate (simNA lateN), dupSimilarity = simNA lateN,
       dupConfidence = overallScore (simNA lateN)\<rparr>]"
    by (rule identifyDuplicates_single)
  then show ?thesis unfolding a dupNA_def simNA_late(3) .
qed

lemma elect_tie: "electOriginal tieN [dupNA tieN] = tieN"
  by (simp add: electOriginal_def dupNA_def tieN_def artA_def)

lemma elect_late: "electOriginal lateN [dupNA lateN] = artA"
  by (simp add: electOriginal_def dupNA_def lateN_def tieN_def artA_def)

lemma oids: "oid artA = 1" "oid tieN = 2" "oid lateN = 2"
  by (simp_all add: artA_def tieN_def lateN_def)

lemma process_tie:
  "processDuplicates dbT tieN [dupNA tieN] =
     (\<lparr>articles = [artA, tieN\<lparr>processed := True, duplicateChecked := True, isDuplicate := False\<rparr>],
       duplicates = [linkFor tieN (dupNA tieN)], nextOid = 3\<rparr>, Inr [tieN])"
  by (simp add: processDuplicates_def Let_def elect_tie insertDuplicate_def dbT_def
      markAsUnique_def updateArticle_def oids)

lemma process_late:
  "processDuplicates dbL lateN [dupNA lateN] =
     (\<lparr>articles = [artA, lateN\<lparr>processed := True, duplicateChecked := True, isDuplicate := True,
                                originalArticleId := Some 1\<rparr>],
       duplicates = [linkFor artA (dupNA lateN)], nextOid = 3\<rparr>, Inr [])"
  by (simp add: processDuplicates_def Let_def elect_late insertDuplicate_def dbL_def
      markAsDuplicate_def updateArticle_def oids)

lemma perform_tie:
  "performDeduplication envX defaultConfig 60000 dbT tieN =
     (\<lparr>articles = [artA, tieN\<lparr>processed := True, duplicateChecked := True, isDuplicate := False\<rparr>],
       duplicates = [linkFor tieN (dupNA tieN)], nextOid = 3\<rparr>, Inr [tieN])"
  by (simp add: performDeduplication_def Let_def candidates_dbT dups_tie process_tie)

lemma perform_late:
  "performDeduplication envX defaultConfig 960000 dbL lateN =
     (\<lparr>articles = [artA, lateN\<lparr>processed := True, duplicateChecked := True, isDuplicate := True,
                                originalArticleId := Some 1\<rparr>],
       duplicates = [linkFor artA (dupNA lateN)], nextOid = 3\<rparr>, Inr [])"
  by (simp add: performDeduplication_def Let_def candidates_dbL dups_late process_late)

lemma link_keys:
  "linkKey (linkFor tieN (dupNA tieN)) = (2, Some 1)"
  "linkKey (linkFor artA (dupNA lateN)) = (1, Some 1)"
  by (simp_all add: linkKey_linkFor oids dupNA_def)

section \<open>Properties of the stored links\<close>

lemma processDuplicates_duplicates:
  "\<exists>k r. duplicates (fst (processDuplicates db a dups))
           = duplicates db @ map (linkFor (electOriginal a dups)) (take k dups)
         \<and> recordDuplicates db (electOriginal a dups) dups
             = (db\<lparr>duplicates := duplicates db @ map (linkFor (electOriginal a dups)) (take k dups)\<rparr>, r)"
proof -
  obtain db1 r where rec: "recordDuplicates db (electOriginal a dups) dups = (db1, r)"
    by (cases "recordDuplicates db (electOriginal a dups) dups") auto
  from recordDuplicates_prefix[OF rec] obtain k where
    k: "db1 = db\<lparr>duplicates := duplicates db @ map (linkFor (electOriginal a dups)) (take k dups)\<rparr>"
    by blast
  have "duplicates (fst (processDuplicates db a dups)) = duplicates db1"
    using rec by (cases r)
      (simp_all add: processDuplicates_def Let_def markAsUnique_def markAsDuplicate_def updateArticle_def)
  with k rec show ?thesis by auto
qed

lemma processDuplicates_unique:
  assumes "linksUnique db"
  shows "linksUnique (fst (processDuplicates db a dups))"
proof -
  obtain db1 r where rec: "recordDuplicates db (electOriginal a dups) dups = (db1, r)"
    by (cases "recordDuplicates db (electOriginal a dups) dups") auto
  have u: "linksUnique db1" using assms rec by (rule recordDuplicates_unique)
  have "duplicates (fst (processDuplicates db a dups)) = duplicates db1"
    using rec by (cases r)
      (simp_all add: processDuplicates_def Let_def markAsUnique_def markAsDuplicate_def updateArticle_def)
  with u show ?thesis by (simp add: linksUnique_def)
qed

lemma processArticle_duplicates:
  "duplicates (fst (processArticle digest extractEntities db raw)) = duplicates db
   \<or> (\<exists>a\<in>set (articles db). contentHash a = generateContentHash digest raw
        \<and> (oid a, None) \<notin> linkKey ` set (duplicates db)
        \<and> duplicates (fst (processArticle digest extractEntities db raw)) = duplicates db @
             [\<lparr>linkOriginalArticleId = oid a, linkDuplicateArticleId = None,
               linkDuplicateUrl = Some (url raw), linkSimilarityScore = 1.0,
               linkDetectionMethod = ContentHash, linkSimilarityBreakdown = None,
               linkTimeDifference = None\<rparr>])"
proof (cases "findArticleByUrl db (url raw)")
  case (Some e)
  then show ?thesis by (simp add: processArticle_def)
next
  case None
  show ?thesis
  proof (cases "findArticleByHash db (generateContentHash digest raw)")
    case n: None
    then show ?thesis using None
      by (auto simp: processArticle_def Let_def insertArticle_def split: sum.splits prod.splits if_splits)
  next
    case (Some a)
    let ?l = "\<lparr>linkOriginalArticleId = oid a, linkDuplicateArticleId = None,
               linkDuplicateUrl = Some (url raw), linkSimilarityScore = 1.0,
               linkDetectionMethod = ContentHash, linkSimilarityBreakdown = None,
               linkTimeDifference = None\<rparr>"
    have m: "a \<in> set (articles db) \<and> contentHash a = generateContentHash digest raw"
      using Some find_Some_mem unfolding findArticleByHash_def by fastforce
    show ?thesis
    proof (cases "insertDuplicate db ?l")
      case (Inl e)
      then show ?thesis using None Some by (simp add: processArticle_def Let_def)
    next
      case (Inr db')
      from insertDuplicate_Inr[OF Inr] have
        "db' = db\<lparr>duplicates := duplicates db @ [?l]\<rparr>" "(oid a, None) \<notin> linkKey ` set (duplicates db)"
        by (simp_all add: linkKey_def)
      then show ?thesis using None Some Inr m by (auto simp: processArticle_def Let_def)
    qed
  qed
qed

text \<open>
  Claim C2, as amended. With the unique index in force, the pairs of original and duplicate
  id of the stored links stay pairwise different: an insertion with a pair that exists is
  rejected. Every link that \<open>processDuplicates\<close> adds for a declared duplicate other than the
  elected original has the id of the elected original as its original id and the id of
  that duplicate, which is another id, as its duplicate id, and the original was not
  published after the duplicate. When the new article is the elected original and no
  candidate has its id, which the query for the candidates ensures, every link that is
  added has an original id other than its duplicate id. Every link that the ingestion adds
  for an item with a known content hash has no duplicate id; it carries the URL of the item
  and the id of a stored article with that hash.
\<close>

theorem duplicate_links_invariants:
  assumes "linksUnique db"
  shows "linksUnique (fst (processDuplicates db a dups))
    \<and> linksUnique (fst (processArticle digest extractEntities db raw))
    \<and> (\<exists>new. duplicates (fst (processDuplicates db a dups)) = duplicates db @ new
          \<and> (\<forall>l\<in>set new. linkDuplicateArticleId l \<noteq> Some (oid (electOriginal a dups)) \<longrightarrow>
                (\<exists>d\<in>set dups.
                   linkOriginalArticleId l = oid (electOriginal a dups)
                   \<and> linkDuplicateArticleId l = Some (oid (dupArticle d))
                   \<and> oid (dupArticle d) \<noteq> linkOriginalArticleId l
                   \<and> publishedAt (electOriginal a dups) \<le> publishedAt (dupArticle d)))
          \<and> (oid (electOriginal a dups) = oid a \<and> (\<forall>d\<in>set dups. oid (dupArticle d) \<noteq> oid a) \<longrightarrow>
                (\<forall>l\<in>set new. linkDuplicateArticleId l \<noteq> Some (linkOriginalArticleId l))))
    \<and> (\<exists>new. duplicates (fst (processArticle digest extractEntities db raw)) = duplicates db @ new
          \<and> (\<forall>l\<in>set new. linkDuplicateArticleId l = None
                \<and> linkDuplicateUrl l = Some (url raw)
                \<and> (\<exists>s\<in>set (articles db). linkOriginalArticleId l = oid s
                      \<and> contentHash s = generateContentHash digest raw)))"
proof (intro conjI)
  show "linksUnique (fst (processDuplicates db a dups))"
    using assms by (rule processDuplicates_unique)
next
  from processArticle_duplicates[of digest extractEntities db raw]
  show "linksUnique (fst (processArticle digest extractEntities db raw))"
    using assms by (force simp: linksUnique_def linkKey_def image_iff)
next
  let ?o = "electOriginal a dups"
  from processDuplicates_duplicates[of db a dups] obtain k where
    k: "duplicates (fst (processDuplicates db a dups)) = duplicates db @ map (linkFor ?o) (take k dups)"
    by blast
  let ?new = "map (linkFor ?o) (take k dups)"
  have src: "\<exists>d\<in>set dups. l = linkFor ?o d" if "l \<in> set ?new" for l
  proof -
    from that obtain d where "d \<in> set (take k dups)" "l = linkFor ?o d" by auto
    moreover from this have "d \<in> set dups" by (meson in_set_takeD)
    ultimately show ?thesis by blast
  qed
  have p1: "\<forall>l\<in>set ?new. linkDuplicateArticleId l \<noteq> Some (oid ?o) \<longrightarrow>
          (\<exists>d\<in>set dups. linkOriginalArticleId l = oid ?o
             \<and> linkDuplicateArticleId l = Some (oid (dupArticle d))
             \<and> oid (dupArticle d) \<noteq> linkOriginalArticleId l
             \<and> publishedAt ?o \<le> publishedAt (dupArticle d))"
  proof (intro ballI impI)
    fix l assume l: "l \<in> set ?new" and g: "linkDuplicateArticleId l \<noteq> Some (oid ?o)"
    from src[OF l] obtain d where d: "d \<in> set dups" "l = linkFor ?o d" by blast
    have t: "publishedAt ?o \<le> publishedAt (dupArticle d)"
      using d(1) by (intro electOriginal_earliest) simp
    have "linkOriginalArticleId l = oid ?o \<and> linkDuplicateArticleId l = Some (oid (dupArticle d))"
      using d(2) by (simp add: linkFor_def)
    moreover from this g have "oid (dupArticle d) \<noteq> linkOriginalArticleId l" by auto
    ultimately show "\<exists>d\<in>set dups. linkOriginalArticleId l = oid ?o
             \<and> linkDuplicateArticleId l = Some (oid (dupArticle d))
             \<and> oid (dupArticle d) \<noteq> linkOriginalArticleId l
             \<and> publishedAt ?o \<le> publishedAt (dupArticle d)"
      using d(1) t by blast
  qed
  have p2: "oid ?o = oid a \<and> (\<forall>d\<in>set dups. oid (dupArticle d) \<noteq> oid a) \<longrightarrow>
          (\<forall>l\<in>set ?new. linkDuplicateArticleId l \<noteq> Some (linkOriginalArticleId l))"
  proof (intro impI ballI)
    fix l assume h: "oid ?o = oid a \<and> (\<forall>d\<in>set dups. oid (dupArticle d) \<noteq> oid a)"
      and l: "l \<in> set ?new"
    from src[OF l] obtain d where d: "d \<in> set dups" "l = linkFor ?o d" by blast
    with h show "linkDuplicateArticleId l \<noteq> Some (linkOriginalArticleId l)"
      by (simp add: linkFor_def)
  qed
  from k p1 p2
  show "\<exists>new. duplicates (fst (processDuplicates db a dups)) = duplicates db @ new
          \<and> (\<forall>l\<in>set new. linkDuplicateArticleId l \<noteq> Some (oid ?o) \<longrightarrow>
                (\<exists>d\<in>set dups.
                   linkOriginalArticleId l = oid ?o
                   \<and> linkDuplicateArticleId l = Some (oid (dupArticle d))
                   \<and> oid (dupArticle d) \<noteq> linkOriginalArticleId l
                   \<and> publishedAt ?o \<le> publishedAt (dupArticle d)))
          \<and> (oid ?o = oid a \<and> (\<forall>d\<in>set dups. oid (dupArticle d) \<noteq> oid a) \<longrightarrow>
                (\<forall>l\<in>set new. linkDuplicateArticleId l \<noteq> Some (linkOriginalArticleId l)))"
    by blast
next
  from processArticle_duplicates[of digest extractEntities db raw]
  show "\<exists>new. duplicates (fst (processArticle digest extractEntities db raw)) = duplicates db @ new
          \<and> (\<forall>l\<in>set new. linkDuplicateArticleId l = None
                \<and> linkDuplicateUrl l = Some (url raw)
                \<and> (\<exists>s\<in>set (articles db). linkOriginalArticleId l = oid s
                      \<and> contentHash s = generateContentHash digest raw))"
  proof
    assume "duplicates (fst (processArticle digest extractEntities db raw)) = duplicates db"
    then have "duplicates (fst (processArticle digest extractEntities db raw)) = duplicates db @ []
      \<and> (\<forall>l\<in>set []. linkDuplicateArticleId l = None
                \<and> linkDuplicateUrl l = Some (url raw)
                \<and> (\<exists>s\<in>set (articles db). linkOriginalArticleId l = oid s
                      \<and> contentHash s = generateContentHash digest raw))" by simp
    then show ?thesis by blast
  next
    assume "\<exists>a\<in>set (articles db). contentHash a = generateContentHash digest raw
        \<and> (oid a, None) \<notin> linkKey ` set (duplicates db)
        \<and> duplicates (fst (processArticle digest extractEntities db raw)) = duplicates db @
             [\<lparr>linkOriginalArticleId = oid a, linkDuplicateArticleId = None,
               linkDuplicateUrl = Some (url raw), linkSimilarityScore = 1.0,
               linkDetectionMethod = ContentHash, linkSimilarityBreakdown = None,
               linkTimeDifference = None\<rparr>]"
    then obtain s where s: "s \<in> set (articles db)" "contentHash s = generateContentHash digest raw"
      "duplicates (fst (processArticle digest extractEntities db raw)) = duplicates db @
             [\<lparr>linkOriginalArticleId = oid s, linkDuplicateArticleId = None,
               linkDuplicateUrl = Some (url raw), linkSimilarityScore = 1.0,
               linkDetectionMethod = ContentHash, linkSimilarityBreakdown = None,
               linkTimeDifference = None\<rparr>]" by blast
    then show ?thesis by fastforce
  qed
qed

text \<open>
  The witness. In a store that holds the link of a dropped repost, the engine processes the
  article \<open>tieN\<close>, which is elected original, and adds the link from it to the candidate,
  article 1; the same repost met again is rejected and leaves the links as they are. In the
  store \<open>dbAC\<close> the ingestion drops the repost of the first story and adds its link to the
  link that is there.
\<close>

theorem duplicate_links_invariants_witness:
  "linksUnique dbT1
   \<and> linksUnique (fst (processDuplicates dbT1 tieN [dupNA tieN]))
   \<and> duplicates (fst (processDuplicates dbT1 tieN [dupNA tieN]))
       = [hashLinkAB, linkFor tieN (dupNA tieN)]
   \<and> linkKey hashLinkAB = (1, None) \<and> linkKey (linkFor tieN (dupNA tieN)) = (2, Some 1)
   \<and> linkDuplicateArticleId (linkFor tieN (dupNA tieN)) \<noteq> Some (linkOriginalArticleId (linkFor tieN (dupNA tieN)))
   \<and> publishedAt (electOriginal tieN [dupNA tieN]) \<le> publishedAt (dupArticle (dupNA tieN))
   \<and> linksUnique dbAC
   \<and> linksUnique (fst (processArticle (\<lambda>s. s) (\<lambda>s. []) dbAC rawB))
   \<and> duplicates (fst (processArticle (\<lambda>s. s) (\<lambda>s. []) dbAC rawB)) = [hashLinkC, hashLinkAB]
   \<and> linkKey hashLinkC = (2, None)
   \<and> duplicates (fst (processArticle (\<lambda>s. s) (\<lambda>s. [])
         (fst (processArticle (\<lambda>s. s) (\<lambda>s. []) dbAC rawB)) rawB)) = [hashLinkC, hashLinkAB]"
proof -
  have kAB: "linkKey hashLinkAB = (1, None)" by (simp add: linkKey_def hashLinkAB_def)
  have kC: "linkKey hashLinkC = (2, None)" by (simp add: linkKey_def hashLinkC_def)
  have u1: "linksUnique dbT1" by (simp add: linksUnique_def dbT1_def)
  have u2: "linksUnique dbAC" by (simp add: linksUnique_def dbAC_def)
  note T1 = duplicate_links_invariants[OF u1, of tieN "[dupNA tieN]" "\<lambda>s. s" "\<lambda>s. []" rawB]
  note T2 = duplicate_links_invariants[OF u2, of tieN "[dupNA tieN]" "\<lambda>s. s" "\<lambda>s. []" rawB]
  have a: "linksUnique (fst (processDuplicates dbT1 tieN [dupNA tieN]))" using T1 by blast
  have b: "duplicates (fst (processDuplicates dbT1 tieN [dupNA tieN]))
       = [hashLinkAB, linkFor tieN (dupNA tieN)]"
    by (simp add: processDuplicates_def Let_def elect_tie insertDuplicate_def dbT1_def
        markAsUnique_def updateArticle_def kAB link_keys)
  have da: "dupArticle (dupNA tieN) = artA" by (simp add: dupNA_def)
  have e0: "oid (electOriginal tieN [dupNA tieN]) = oid tieN
      \<and> (\<forall>d\<in>set [dupNA tieN]. oid (dupArticle d) \<noteq> oid tieN)"
    by (simp add: elect_tie oids da)
  have "\<exists>new. duplicates (fst (processDuplicates dbT1 tieN [dupNA tieN])) = duplicates dbT1 @ new
          \<and> (\<forall>l\<in>set new. linkDuplicateArticleId l \<noteq> Some (oid (electOriginal tieN [dupNA tieN])) \<longrightarrow>
                (\<exists>d\<in>set [dupNA tieN].
                   linkOriginalArticleId l = oid (electOriginal tieN [dupNA tieN])
                   \<and> linkDuplicateArticleId l = Some (oid (dupArticle d))
                   \<and> oid (dupArticle d) \<noteq> linkOriginalArticleId l
                   \<and> publishedAt (electOriginal tieN [dupNA tieN]) \<le> publishedAt (dupArticle d)))
          \<and> (oid (electOriginal tieN [dupNA tieN]) = oid tieN
               \<and> (\<forall>d\<in>set [dupNA tieN]. oid (dupArticle d) \<noteq> oid tieN) \<longrightarrow>
                (\<forall>l\<in>set new. linkDuplicateArticleId l \<noteq> Some (linkOriginalArticleId l)))"
    using T1 by blast
  then obtain new where n: "[hashLinkAB, linkFor tieN (dupNA tieN)] = duplicates dbT1 @ new"
    and n1: "\<forall>l\<in>set new. linkDuplicateArticleId l \<noteq> Some (oid (electOriginal tieN [dupNA tieN])) \<longrightarrow>
                (\<exists>d\<in>set [dupNA tieN].
                   linkOriginalArticleId l = oid (electOriginal tieN [dupNA tieN])
                   \<and> linkDuplicateArticleId l = Some (oid (dupArticle d))
                   \<and> oid (dupArticle d) \<noteq> linkOriginalArticleId l
                   \<and> publishedAt (electOriginal tieN [dupNA tieN]) \<le> publishedAt (dupArticle d))"
    and n2: "\<forall>l\<in>set new. linkDuplicateArticleId l \<noteq> Some (linkOriginalArticleId l)"
    unfolding b using e0 by blast
  from n have new: "new = [linkFor tieN (dupNA tieN)]" by (simp add: dbT1_def)
  have c: "linkDuplicateArticleId (linkFor tieN (dupNA tieN))
      \<noteq> Some (linkOriginalArticleId (linkFor tieN (dupNA tieN)))"
    using n2 unfolding new by simp
  have "linkDuplicateArticleId (linkFor tieN (dupNA tieN)) \<noteq> Some (oid (electOriginal tieN [dupNA tieN]))"
    by (simp add: linkFor_def elect_tie oids da)
  then have d: "publishedAt (electOriginal tieN [dupNA tieN]) \<le> publishedAt (dupArticle (dupNA tieN))"
    using n1 unfolding new by simp
  have e: "linksUnique (fst (processArticle (\<lambda>s. s) (\<lambda>s. []) dbAC rawB))" using T2 by blast
  have f: "duplicates (fst (processArticle (\<lambda>s. s) (\<lambda>s. []) dbAC rawB)) = [hashLinkC, hashLinkAB]"
    by code_simp
  have g: "duplicates (fst (processArticle (\<lambda>s. s) (\<lambda>s. [])
         (fst (processArticle (\<lambda>s. s) (\<lambda>s. []) dbAC rawB)) rawB)) = [hashLinkC, hashLinkAB]"
    by code_simp
  from u1 a b kAB link_keys(1) c d u2 e f kC g show ?thesis by (intro conjI)
qed

text \<open>
  Claim C2 as stated fails: the link that the ingestion records for the repost has no
  duplicate id. Its original is the article that was stored first, whatever the
  publication times: the second story was published at 300000, and the link of a repost
  published at 0 names it as the original.
\<close>

theorem duplicate_links_counterexample:
  "duplicates (fst (processArticle (\<lambda>s. s) (\<lambda>s. [])
       \<lparr>articles = [storedA], duplicates = [], nextOid = 2\<rparr> rawB)) = [hashLinkAB]
   \<and> linkKey hashLinkAB = (1, None)
   \<and> duplicates (fst (processArticle (\<lambda>s. s) (\<lambda>s. [])
       \<lparr>articles = [storedA, storedC], duplicates = [], nextOid = 3\<rparr>
       (rawC\<lparr>url := str ''http://b.example/story-21'', source := str ''Source B'',
             publishedAt := 0\<rparr>))) = [hashLinkC]
   \<and> linkKey hashLinkC = (2, None) \<and> oid storedC = 2 \<and> publishedAt storedC = 300000"
  by code_simp

text \<open>
  A candidate that is elected original is linked to itself, and the new article, marked as
  its duplicate, gets no link: the loop of \<open>processDuplicates\<close> runs over the candidates only.
\<close>

lemma self_link_example:
  "performDeduplication envX defaultConfig 960000 dbL lateN =
     (\<lparr>articles = [artA, lateN\<lparr>processed := True, duplicateChecked := True, isDuplicate := True,
                                originalArticleId := Some 1\<rparr>],
       duplicates = [linkFor artA (dupNA lateN)], nextOid = 3\<rparr>, Inr [])
   \<and> linkKey (linkFor artA (dupNA lateN)) = (1, Some 1)"
  using perform_late link_keys(2) by simp

section \<open>The election on the two runs\<close>

theorem processDuplicates_election_witness:
  "(oid (electOriginal tieN [dupNA tieN]), Some (oid (dupArticle (dupNA tieN))))
       \<notin> linkKey ` set (duplicates dbT)
   \<and> distinct (map (\<lambda>d. oid (dupArticle d)) [dupNA tieN])
   \<and> distinct (map oid (articles dbT))
   \<and> oid (articles dbT ! 1) = oid tieN
   \<and> electOriginal tieN [dupNA tieN] = tieN
   \<and> oid (dupArticle (dupNA tieN)) \<noteq> oid (electOriginal tieN [dupNA tieN])
   \<and> processDuplicates dbT tieN [dupNA tieN] =
       (\<lparr>articles = [artA, tieN\<lparr>processed := True, duplicateChecked := True, isDuplicate := False\<rparr>],
         duplicates = [linkFor tieN (dupNA tieN)], nextOid = 3\<rparr>, Inr [tieN])
   \<and> electOriginal lateN [dupNA lateN] = artA
   \<and> publishedAt artA \<le> publishedAt lateN
   \<and> oid lateN \<noteq> oid (electOriginal lateN [dupNA lateN])
   \<and> snd (processDuplicates dbL lateN [dupNA lateN]) = Inr []
   \<and> articles (fst (processDuplicates dbL lateN [dupNA lateN])) =
       [artA, lateN\<lparr>processed := True, duplicateChecked := True, isDuplicate := True,
                      originalArticleId := Some 1\<rparr>]"
proof -
  have t1: "\<forall>d\<in>set [dupNA tieN]. (oid (electOriginal tieN [dupNA tieN]), Some (oid (dupArticle d)))
       \<notin> linkKey ` set (duplicates dbT)" by (simp add: dbT_def)
  have t2: "distinct (map (\<lambda>d. oid (dupArticle d)) [dupNA tieN])" by simp
  have t3: "distinct (map oid (articles dbT))" by (simp add: dbT_def oids)
  have t4: "\<exists>x\<in>set (articles dbT). oid x = oid tieN" by (simp add: dbT_def)
  note T = processDuplicates_election[OF t1 t2 t3 t4]
  have d1: "dupArticle (dupNA tieN) = artA" by (simp add: dupNA_def)
  have ne: "oid (dupArticle (dupNA tieN)) \<noteq> oid (electOriginal tieN [dupNA tieN])"
    by (simp add: d1 elect_tie oids)
  have h1: "(oid (electOriginal tieN [dupNA tieN]), Some (oid (dupArticle (dupNA tieN))))
       \<notin> linkKey ` set (duplicates dbT)" using t1 by simp
  have h4: "oid (articles dbT ! 1) = oid tieN" by (simp add: dbT_def)
  from T obtain db' where
    p: "processDuplicates dbT tieN [dupNA tieN]
          = (db', Inr (if oid tieN = oid (electOriginal tieN [dupNA tieN]) then [tieN] else []))"
    by blast
  then have "snd (processDuplicates dbT tieN [dupNA tieN]) = Inr [tieN]"
    by (simp add: elect_tie)
  then have a: "processDuplicates dbT tieN [dupNA tieN] =
       (\<lparr>articles = [artA, tieN\<lparr>processed := True, duplicateChecked := True, isDuplicate := False\<rparr>],
         duplicates = [linkFor tieN (dupNA tieN)], nextOid = 3\<rparr>, Inr [tieN])"
    by (simp add: process_tie)
  have s1: "\<forall>d\<in>set [dupNA lateN]. (oid (electOriginal lateN [dupNA lateN]), Some (oid (dupArticle d)))
       \<notin> linkKey ` set (duplicates dbL)" by (simp add: dbL_def)
  have s2: "distinct (map (\<lambda>d. oid (dupArticle d)) [dupNA lateN])" by simp
  have s3: "distinct (map oid (articles dbL))" by (simp add: dbL_def oids)
  have s4: "\<exists>x\<in>set (articles dbL). oid x = oid lateN" by (simp add: dbL_def)
  note S = processDuplicates_election[OF s1 s2 s3 s4]
  have nl: "oid lateN \<noteq> oid (electOriginal lateN [dupNA lateN])" by (simp add: elect_late oids)
  from S obtain db2 where
    p2: "processDuplicates dbL lateN [dupNA lateN]
          = (db2, Inr (if oid lateN = oid (electOriginal lateN [dupNA lateN]) then [lateN] else []))"
    by blast
  then have b: "snd (processDuplicates dbL lateN [dupNA lateN]) = Inr []"
    using nl by simp
  have b2: "articles (fst (processDuplicates dbL lateN [dupNA lateN])) =
       [artA, lateN\<lparr>processed := True, duplicateChecked := True, isDuplicate := True,
                      originalArticleId := Some 1\<rparr>]"
    by (simp add: process_late)
  have c: "publishedAt artA \<le> publishedAt lateN"
    using S unfolding elect_late by simp
  from h1 t2 t3 h4 elect_tie ne a elect_late c nl b b2 show ?thesis by (intro conjI)
qed

text \<open>
  Claim C3 as stated fails on a tie. The stored article and the new one have the same
  publication time and the stored one was inserted first; the reduction keeps the new
  article, which is marked as not a duplicate and announced, and the article that was
  stored first is linked as its duplicate.
\<close>

theorem processDuplicates_tie_counterexample:
  "articles dbT = [artA, tieN] \<and> publishedAt artA = publishedAt tieN
   \<and> identifyDuplicates (thresholdsOf defaultConfig)
        (analyzeSimilarities envX defaultConfig tieN (getCandidateArticles defaultConfig 60000 dbT tieN))
      = [dupNA tieN]
   \<and> dupArticle (dupNA tieN) = artA
   \<and> electOriginal tieN [dupNA tieN] = tieN
   \<and> performDeduplication envX defaultConfig 60000 dbT tieN =
       (\<lparr>articles = [artA, tieN\<lparr>processed := True, duplicateChecked := True, isDuplicate := False\<rparr>],
         duplicates = [linkFor tieN (dupNA tieN)], nextOid = 3\<rparr>, Inr [tieN])
   \<and> linkKey (linkFor tieN (dupNA tieN)) = (oid tieN, Some (oid artA))"
proof -
  have a: "articles dbT = [artA, tieN]" by (simp add: dbT_def)
  have b: "publishedAt artA = publishedAt tieN" by (simp add: tieN_def)
  have c: "identifyDuplicates (thresholdsOf defaultConfig)
        (analyzeSimilarities envX defaultConfig tieN (getCandidateArticles defaultConfig 60000 dbT tieN))
      = [dupNA tieN]" by (simp only: candidates_dbT dups_tie)
  have d: "dupArticle (dupNA tieN) = artA" by (simp add: dupNA_def)
  have e: "linkKey (linkFor tieN (dupNA tieN)) = (oid tieN, Some (oid artA))"
    by (simp add: linkKey_linkFor d)
  from a b c d elect_tie perform_tie e show ?thesis by (intro conjI)
qed

section \<open>Properties of the rate limit\<close>

lemma shouldSendAlert_rate: "shouldSendAlert m now a = Inr True \<Longrightarrow> checkRateLimit m now"
  by (auto simp: shouldSendAlert_def split: if_splits)

lemma processAlert_admits:
  "alertQueue (processAlert cfg rnd now m a) \<noteq> alertQueue m \<Longrightarrow> shouldSendAlert m now a = Inr True"
  by (auto simp: processAlert_def split: sum.splits bool.splits prod.splits)

text \<open>
  The limiter is consulted at every admission: an article is queued only if fewer entries of
  the alert history than the hourly limit are younger than one hour. The admission itself
  leaves the history as it is; \<open>trackAlert\<close> writes it when the alert is dispatched.
\<close>

lemma admission_reads_history:
  "(alertQueue (processAlert cfg rnd now m a) \<noteq> alertQueue m \<longrightarrow>
      real (recentAlerts m now) < maxAlertsPerHour m)
   \<and> alertHistory (processAlert cfg rnd now m a) = alertHistory m"
proof
  show "alertQueue (processAlert cfg rnd now m a) \<noteq> alertQueue m \<longrightarrow>
      real (recentAlerts m now) < maxAlertsPerHour m"
  proof
    assume "alertQueue (processAlert cfg rnd now m a) \<noteq> alertQueue m"
    then have "shouldSendAlert m now a = Inr True" by (rule processAlert_admits)
    then have "checkRateLimit m now" by (rule shouldSendAlert_rate)
    then show "real (recentAlerts m now) < maxAlertsPerHour m"
      by (simp add: checkRateLimit_def)
  qed
  show "alertHistory (processAlert cfg rnd now m a) = alertHistory m"
    by (auto simp: processAlert_def split: sum.splits bool.splits prod.splits)
qed

text \<open>
  Claim C6 against the code. The limit is two alerts per hour (the README calls the setting
  the global alert rate limit). Three articles arrive within two seconds, before the timer
  dispatches the first alert. The history is empty at each of the three decisions, so all
  three are admitted and three alerts are created within the hour. The timer then
  dispatches them five seconds apart, and the history holds three dispatches within the
  same hour: one more than the limit. The limiter counts what has been dispatched and
  misses what it has admitted and not yet dispatched.
\<close>

theorem rate_limit_burst:
  "maxAlertsPerHour (newAlertManager alertsCfg) = 2
   \<and> processAlert alertsCfg (str ''1'') 1860000 (newAlertManager alertsCfg) artA = mgrQ [alert1]
   \<and> processAlert alertsCfg (str ''2'') 1861000 (mgrQ [alert1]) artB = mgrQ [alert1, alert2]
   \<and> processAlert alertsCfg (str ''3'') 1862000 (mgrQ [alert1, alert2]) tieN
       = mgrQ [alert1, alert2, alert3]
   \<and> map alertCreatedAt (alertQueue (mgrQ [alert1, alert2, alert3])) = [1860000, 1861000, 1862000]
   \<and> recentAlerts (mgrQ [alert1, alert2]) 1862000 = 0
   \<and> map alertStatus (storedAlerts (dispatch3 (mgrQ [alert1, alert2, alert3]))) = [Sent, Sent, Sent]
   \<and> map alertSentAt (storedAlerts (dispatch3 (mgrQ [alert1, alert2, alert3])))
       = [Some 1865000, Some 1870000, Some 1875000]
   \<and> recentAlerts (dispatch3 (mgrQ [alert1, alert2, alert3])) 1875000 = 3"
proof (intro conjI)
  show "maxAlertsPerHour (newAlertManager alertsCfg) = 2"
    by (simp add: newAlertManager_def alertsCfg_def)
  show "processAlert alertsCfg (str ''1'') 1860000 (newAlertManager alertsCfg) artA = mgrQ [alert1]"
    by code_simp
  show "processAlert alertsCfg (str ''2'') 1861000 (mgrQ [alert1]) artB = mgrQ [alert1, alert2]"
    by code_simp
  show "processAlert alertsCfg (str ''3'') 1862000 (mgrQ [alert1, alert2]) tieN
       = mgrQ [alert1, alert2, alert3]"
    by code_simp
  show "map alertCreatedAt (alertQueue (mgrQ [alert1, alert2, alert3])) = [1860000, 1861000, 1862000]"
    by (simp add: mgrQ_def alert1_def alert2_def alert3_def)
  show "recentAlerts (mgrQ [alert1, alert2]) 1862000 = 0"
    by (simp add: recentAlerts_def mgrQ_def)
  show "map alertStatus (storedAlerts (dispatch3 (mgrQ [alert1, alert2, alert3]))) = [Sent, Sent, Sent]"
    by code_simp
  show "map alertSentAt (storedAlerts (dispatch3 (mgrQ [alert1, alert2, alert3])))
       = [Some 1865000, Some 1870000, Some 1875000]"
    by code_simp
  show "recentAlerts (dispatch3 (mgrQ [alert1, alert2, alert3])) 1875000 = 3"
    by code_simp
qed

end
